theory Spec2Isabelle
  imports Main
begin

section \<open>Symbolic shape analysis: \<^verbatim>\<open>torch/csrc/jit/passes/symbolic_shape_analysis.cpp\<close>\<close>

subsection \<open>Data model: shapes, types, constants\<close>

text \<open>
  Modelled from the spec: \<open>c10::SymbolicShape\<close> is declared outside this file. The spec's
  data model is used: an optional rank and, when the rank is known, one optional static
  size per dimension. \<open>None\<close> is the shape of unknown rank, \<open>Some ds\<close> has rank
  \<open>length ds\<close>, and \<open>ds ! i = None\<close> is an unknown (symbolic) dimension.
\<close>

type_synonym symbolic_shape = "int option list option"

text \<open>
  Modelled from the spec: a tensor type is its symbolic shape plus all its other type
  information (scalar type, device, strides and so on), kept as one opaque field.
\<close>

record tensor_type =
  symbolic_sizes :: symbolic_shape
  tensor_props :: string

datatype jtype =
    TensorType tensor_type
  | ListType jtype
  | IntType
  | BoolType
  | NoneType
  | StringType
  | OtherType string

text \<open>Constants of the IR (\<open>IValue\<close>). Integers are \<open>int64_t\<close> values.\<close>

datatype ivalue =
    IInt int
  | IIntList "int list"
  | IBool bool
  | INone
  | IString string
  | ITensorList nat

fun type_of_ivalue :: "ivalue \<Rightarrow> jtype" where
  "type_of_ivalue (IInt _) = IntType"
| "type_of_ivalue (IIntList _) = ListType IntType"
| "type_of_ivalue (IBool _) = BoolType"
| "type_of_ivalue INone = NoneType"
| "type_of_ivalue (IString _) = StringType"
| "type_of_ivalue (ITensorList _) =
     ListType (TensorType \<lparr>symbolic_sizes = None, tensor_props = []\<rparr>)"

text \<open>\<open>SymbolicShape::isComplete\<close>, \<open>rank\<close> and \<open>concrete_sizes\<close>.\<close>

definition isComplete :: "symbolic_shape \<Rightarrow> bool" where
  "isComplete s = (case s of None \<Rightarrow> False | Some ds \<Rightarrow> list_all (\<lambda>d. d \<noteq> None) ds)"

definition rank :: "symbolic_shape \<Rightarrow> nat option" where
  "rank s = map_option length s"

definition concrete_sizes :: "symbolic_shape \<Rightarrow> int list option" where
  "concrete_sizes s =
     (case s of None \<Rightarrow> None
      | Some ds \<Rightarrow> if list_all (\<lambda>d. d \<noteq> None) ds then Some (map the ds) else None)"

definition withSymbolicShapes :: "tensor_type \<Rightarrow> symbolic_shape \<Rightarrow> tensor_type" where
  "withSymbolicShapes tt ssizes = tt\<lparr>symbolic_sizes := ssizes\<rparr>"

fun castTensorType :: "jtype \<Rightarrow> tensor_type option" where
  "castTensorType (TensorType tt) = Some tt"
| "castTensorType _ = None"

text \<open>\<open>type->cast<ListType>() && ...->getElementType()->cast<TensorType>()\<close>\<close>

fun isTensorList :: "jtype \<Rightarrow> bool" where
  "isTensorList (ListType (TensorType _)) = True"
| "isTensorList _ = False"

subsection \<open>Errors\<close>

text \<open>
  Every way the C++ can leave a function by an exception is a value:
  \<open>InternalAssert\<close> is a \<open>TORCH_INTERNAL_ASSERT\<close> written in this file,
  \<open>OutOfRange\<close> is the \<open>std::out_of_range\<close> of a checked \<open>.at(i)\<close>,
  \<open>IRAssert\<close> is an assertion inside an IR accessor (\<open>Node::output\<close>,
  \<open>IValue::toInt\<close>, \<open>IValue::toIntVector\<close>, \<open>Type::expect\<close>), and
  \<open>NullDeref\<close> stands for the use of a pointer to no live object.
\<close>

datatype error = InternalAssert | OutOfRange | IRAssert | NullDeref

definition bindE :: "error + 'a \<Rightarrow> ('a \<Rightarrow> error + 'b) \<Rightarrow> error + 'b" where
  "bindE m f = (case m of Inl e \<Rightarrow> Inl e | Inr x \<Rightarrow> f x)"

definition at :: "'a list \<Rightarrow> nat \<Rightarrow> error + 'a" where
  "at xs i = (if i < length xs then Inr (xs ! i) else Inl OutOfRange)"

text \<open>A range-based \<open>for\<close> loop whose body may throw: the first error ends the loop.\<close>

fun for_each :: "'x list \<Rightarrow> ('s \<Rightarrow> 'x \<Rightarrow> error + 's) \<Rightarrow> 's \<Rightarrow> error + 's" where
  "for_each [] body s = Inr s"
| "for_each (x # xs) body s =
     (case body s x of Inl e \<Rightarrow> Inl e | Inr s' \<Rightarrow> for_each xs body s')"

fun mapE :: "('x \<Rightarrow> error + 'y) \<Rightarrow> 'x list \<Rightarrow> error + 'y list" where
  "mapE f [] = Inr []"
| "mapE f (x # xs) =
     (case f x of Inl e \<Rightarrow> Inl e
      | Inr y \<Rightarrow> (case mapE f xs of Inl e \<Rightarrow> Inl e | Inr ys \<Rightarrow> Inr (y # ys)))"

subsection \<open>The IR: graphs, nodes, values, uses\<close>

text \<open>
  Modelled from the spec: the graph IR (\<open>torch/csrc/jit/ir/ir.h\<close>) is not part of this
  file. A graph is modelled by its inputs, the nodes of all its blocks in program order
  (each under a stable identity, as a \<open>Node*\<close> is), its outputs (the inputs of the
  return node), the type of every value and the counter of fresh names. A value is
  named by a number; a node owns its outputs and refers to its inputs.

  A node with blocks of its own (\<open>prim::If\<close>, \<open>prim::Loop\<close>) is followed in the list by the
  nodes of its blocks, and every node names the block it is in: block 0 is the top-level
  block of the graph. The uses of a value are taken over all nodes, as \<open>Value::uses\<close>
  does; \<open>graph->nodes()\<close> is the list of the nodes of the top-level block only. The
  parameters and return nodes of nested blocks are not modelled.
\<close>

type_synonym vid = nat
type_synonym nid = nat

datatype node_kind =
    prim_Constant ivalue
  | prim_ListConstruct
  | prim_Param
  | prim_Return
  | aten_len
  | aten_getitem
  | other_kind string

record node =
  n_kind :: node_kind
  n_inputs :: "vid list"
  n_outputs :: "vid list"
  n_schema :: "string option"
  n_block :: nat

record graph =
  g_inputs :: "vid list"
  g_nodes :: "(nid \<times> node) list"
  g_outputs :: "vid list"
  g_type :: "vid \<Rightarrow> jtype"
  g_next :: nat

text \<open>\<open>graph->nodes()\<close>: the nodes of the top-level block, in order.\<close>

definition graph_nodes :: "graph \<Rightarrow> (nid \<times> node) list" where
  "graph_nodes g = filter (\<lambda>(i, n). n_block n = 0) (g_nodes g)"

text \<open>The user of a value is a node of the graph or the graph's return node.\<close>

datatype user = UNode nid | UReturn

text \<open>\<open>v->node()\<close>: the node that has \<open>v\<close> among its outputs; a graph input has none.\<close>

definition producer :: "graph \<Rightarrow> vid \<Rightarrow> node option" where
  "producer g v = map_option snd (find (\<lambda>(i, n). v \<in> set (n_outputs n)) (g_nodes g))"

definition value_kind :: "graph \<Rightarrow> vid \<Rightarrow> node_kind" where
  "value_kind g v = (case producer g v of None \<Rightarrow> prim_Param | Some n \<Rightarrow> n_kind n)"

text \<open>
  \<open>v->node()->owningBlock()\<close>: the block of the node that makes \<open>v\<close>; a graph input is
  made by the parameter node of the top-level block.
\<close>

definition owning_block :: "graph \<Rightarrow> vid \<Rightarrow> nat" where
  "owning_block g v = (case producer g v of None \<Rightarrow> 0 | Some n \<Rightarrow> n_block n)"

text \<open>\<open>toIValue(v)\<close>: the constant behind \<open>v\<close> when \<open>v\<close> is made by \<open>prim::Constant\<close>.\<close>

definition toIValue :: "graph \<Rightarrow> vid \<Rightarrow> ivalue option" where
  "toIValue g v = (case value_kind g v of prim_Constant c \<Rightarrow> Some c | _ \<Rightarrow> None)"

text \<open>\<open>constant_as<int64_t>(v)\<close>: \<open>toIValue(v)->toInt()\<close>, which asserts \<open>isInt()\<close>.\<close>

definition constant_as_int :: "graph \<Rightarrow> vid \<Rightarrow> error + int option" where
  "constant_as_int g v =
     (case toIValue g v of
        None \<Rightarrow> Inr None
      | Some (IInt k) \<Rightarrow> Inr (Some k)
      | Some _ \<Rightarrow> Inl IRAssert)"

definition offsets_of :: "vid \<Rightarrow> vid list \<Rightarrow> nat list" where
  "offsets_of v xs = filter (\<lambda>i. xs ! i = v) [0..<length xs]"

text \<open>
  \<open>v->uses()\<close>: every (user, offset) at which \<open>v\<close> is an input, the return node
  included. The list is taken in program order.
\<close>

definition uses :: "graph \<Rightarrow> vid \<Rightarrow> (user \<times> nat) list" where
  "uses g v =
     concat (map (\<lambda>(i, n). map (\<lambda>off. (UNode i, off)) (offsets_of v (n_inputs n))) (g_nodes g))
     @ map (\<lambda>off. (UReturn, off)) (offsets_of v (g_outputs g))"

text \<open>
  The insertion point \<open>*block->nodes().begin()\<close>: a node inserted there comes before the
  first node of block \<open>b\<close>, or last when the block has no node (then \<open>begin()\<close> is the
  return node).
\<close>

fun insert_at_block_start :: "nat \<Rightarrow> nid \<times> node \<Rightarrow> (nid \<times> node) list \<Rightarrow> (nid \<times> node) list" where
  "insert_at_block_start b x [] = [x]"
| "insert_at_block_start b x (y # ys) =
     (if n_block (snd y) = b then x # y # ys else y # insert_at_block_start b x ys)"

text \<open>
  \<open>insertConstant(val)\<close> with the insertion point at the first node of block \<open>b\<close>:
  a new \<open>prim::Constant\<close> node of that block, with one fresh output.
\<close>

definition insertConstant :: "graph \<Rightarrow> nat \<Rightarrow> ivalue \<Rightarrow> graph \<times> vid" where
  "insertConstant g b val =
     (let c = g_next g in
      (g\<lparr>g_nodes := insert_at_block_start b
                     (c, \<lparr>n_kind = prim_Constant val, n_inputs = [], n_outputs = [c],
                          n_schema = None, n_block = b\<rparr>) (g_nodes g),
         g_type := (g_type g)(c := type_of_ivalue val),
         g_next := Suc c\<rparr>, c))"

definition rename :: "vid \<Rightarrow> vid \<Rightarrow> vid list \<Rightarrow> vid list" where
  "rename v c xs = map (\<lambda>x. if x = v then c else x) xs"

text \<open>\<open>v->replaceAllUsesWith(c)\<close>: every input slot that holds \<open>v\<close> now holds \<open>c\<close>.\<close>

definition replaceAllUsesWith :: "graph \<Rightarrow> vid \<Rightarrow> vid \<Rightarrow> graph" where
  "replaceAllUsesWith g v c =
     g\<lparr>g_nodes := map (\<lambda>(i, n). (i, n\<lparr>n_inputs := rename v c (n_inputs n)\<rparr>)) (g_nodes g),
       g_outputs := rename v c (g_outputs g)\<rparr>"

text \<open>\<open>Node::output()\<close> asserts that the node has exactly one output.\<close>

definition node_output :: "node \<Rightarrow> error + vid" where
  "node_output n = (case n_outputs n of [v] \<Rightarrow> Inr v | _ \<Rightarrow> Inl IRAssert)"

definition return_node :: "graph \<Rightarrow> node" where
  "return_node g = \<lparr>n_kind = prim_Return, n_inputs = g_outputs g, n_outputs = [], n_schema = None, n_block = 0\<rparr>"

subsection \<open>The store of graphs\<close>

text \<open>
  Graphs are shared through \<open>std::shared_ptr<Graph>\<close>: the registry, the caller and the
  analyzer can hold the same graph. A pointer is an index into the store; a cell is
  \<open>None\<close> once its graph is released. \<open>Graph::copy\<close> allocates a new cell, so a
  copy never aliases a graph that exists already.
\<close>

type_synonym gptr = nat
type_synonym heap = "graph option list"

definition lookup :: "heap \<Rightarrow> gptr \<Rightarrow> graph option" where
  "lookup h p = (if p < length h then h ! p else None)"

definition graph_at :: "heap \<Rightarrow> gptr \<Rightarrow> error + graph" where
  "graph_at h p = (case lookup h p of None \<Rightarrow> Inl NullDeref | Some g \<Rightarrow> Inr g)"

definition alloc :: "heap \<Rightarrow> graph \<Rightarrow> heap \<times> gptr" where
  "alloc h g = (h @ [Some g], length h)"

definition release :: "heap \<Rightarrow> gptr \<Rightarrow> heap" where
  "release h p = h[p := None]"

definition copy :: "graph \<Rightarrow> graph" where
  "copy g = g"

text \<open>A \<open>Node*\<close> and a \<open>Value*\<close> name their graph and the node or value in it.\<close>

type_synonym node_ptr = "gptr \<times> nid"
type_synonym value_ptr = "gptr \<times> vid"

definition node_at :: "heap \<Rightarrow> node_ptr \<Rightarrow> error + node" where
  "node_at h n =
     bindE (graph_at h (fst n)) (\<lambda>g.
       case map_of (g_nodes g) (snd n) of None \<Rightarrow> Inl NullDeref | Some nd \<Rightarrow> Inr nd)"

text \<open>\<open>n->input(i)\<close> is \<open>inputs_.at(i)\<close>.\<close>

definition node_input :: "heap \<Rightarrow> node_ptr \<Rightarrow> nat \<Rightarrow> error + value_ptr" where
  "node_input h n i =
     bindE (node_at h n) (\<lambda>nd. bindE (at (n_inputs nd) i) (\<lambda>v. Inr (fst n, v)))"

definition graph_input :: "heap \<Rightarrow> gptr \<Rightarrow> nat \<Rightarrow> error + value_ptr" where
  "graph_input h p i =
     bindE (graph_at h p) (\<lambda>g. bindE (at (g_inputs g) i) (\<lambda>v. Inr (p, v)))"

definition value_type :: "heap \<Rightarrow> value_ptr \<Rightarrow> error + jtype" where
  "value_type h v = bindE (graph_at h (fst v)) (\<lambda>g. Inr (g_type g (snd v)))"

definition setType :: "heap \<Rightarrow> value_ptr \<Rightarrow> jtype \<Rightarrow> error + heap" where
  "setType h v ty =
     bindE (graph_at h (fst v)) (\<lambda>g.
       Inr (h[fst v := Some (g\<lparr>g_type := (g_type g)(snd v := ty)\<rparr>)]))"

definition user_node :: "heap \<Rightarrow> gptr \<Rightarrow> user \<Rightarrow> error + node" where
  "user_node h p u =
     (case u of
        UNode i \<Rightarrow> node_at h (p, i)
      | UReturn \<Rightarrow> bindE (graph_at h p) (\<lambda>g. Inr (return_node g)))"

subsection \<open>The functions of the file\<close>

text \<open>
  Conversions to \<open>int64_t\<close> and \<open>size_t\<close> (64 bits, two's complement), written out
  on the integers.
\<close>

definition to_uint64 :: "int \<Rightarrow> int" where
  "to_uint64 x = x mod 2 ^ 64"

definition to_int64 :: "int \<Rightarrow> int" where
  "to_int64 x = (x + 2 ^ 63) mod 2 ^ 64 - 2 ^ 63"

text \<open>
  \<open>normIndex(int64_t index, size_t len)\<close>. In \<open>index + len\<close> the signed operand is
  converted to \<open>size_t\<close>, the sum wraps at 64 bits and is converted back on assignment.
\<close>

definition normIndex :: "int \<Rightarrow> nat \<Rightarrow> nat option" where
  "normIndex index len =
     (let index1 = (if index < 0 then to_int64 (to_uint64 (to_uint64 index + int len)) else index)
      in if index1 \<ge> 0 \<and> index1 < to_int64 (int len) then Some (nat index1) else None)"

text \<open>
  \<open>replaceWithIValue(Value* v, IValue val)\<close>: insert the constant at the start of the
  block that owns \<open>v\<close> and redirect every use of \<open>v\<close> to it. The graph written to is
  the graph that owns \<open>v\<close>.
\<close>

definition replaceWithIValue :: "heap \<Rightarrow> value_ptr \<Rightarrow> ivalue \<Rightarrow> error + heap" where
  "replaceWithIValue h v val =
     bindE (graph_at h (fst v)) (\<lambda>g.
       case insertConstant g (owning_block g (snd v)) val of
         (g1, c) \<Rightarrow> Inr (h[fst v := Some (replaceAllUsesWith g1 (snd v) c)]))"

record SymbolicShapeAnalyzer =
  node_input_tensor_indices :: "nat list"
  graph_ptr :: gptr
  node_ptr :: node_ptr

text \<open>The body of the constructor's loop, for input position \<open>i\<close> (lines 61 to 81).\<close>

definition specialize_input ::
  "heap \<times> SymbolicShapeAnalyzer \<Rightarrow> nat \<Rightarrow> error + heap \<times> SymbolicShapeAnalyzer" where
  "specialize_input s i =
     (case s of (h, a) \<Rightarrow>
        bindE (node_input h (node_ptr a) i) (\<lambda>inp.
        bindE (value_type h inp) (\<lambda>ty.
          case castTensorType ty of
            Some tt \<Rightarrow>
              (let symbolic_shapes = symbolic_sizes tt in
               if isComplete symbolic_shapes then
                 bindE (graph_input h (graph_ptr a) i) (\<lambda>gi.
                   case concrete_sizes symbolic_shapes of
                     None \<Rightarrow> Inl IRAssert
                   | Some sizes \<Rightarrow>
                       bindE (replaceWithIValue h gi (IIntList sizes)) (\<lambda>h1. Inr (h1, a)))
               else if rank symbolic_shapes \<noteq> None then
                 Inr (h, a\<lparr>node_input_tensor_indices := node_input_tensor_indices a @ [i]\<rparr>)
               else Inr (h, a))
          | None \<Rightarrow>
              if isTensorList ty then Inl InternalAssert
              else
                bindE (graph_at h (fst inp)) (\<lambda>tg.
                  case toIValue tg (snd inp) of
                    None \<Rightarrow> Inr (h, a)
                  | Some ival \<Rightarrow>
                      bindE (graph_input h (graph_ptr a) i) (\<lambda>gi.
                      bindE (replaceWithIValue h gi ival) (\<lambda>h1. Inr (h1, a)))))))"

text \<open>
  The constructor: \<open>graph_(shape_compute_graph->copy()), node_(n)\<close>, then the loop over
  the input positions of the node. The loop bound is read once.
\<close>

definition SymbolicShapeAnalyzer_init ::
  "heap \<Rightarrow> node_ptr \<Rightarrow> gptr \<Rightarrow> error + heap \<times> SymbolicShapeAnalyzer" where
  "SymbolicShapeAnalyzer_init h n shape_compute_graph =
     bindE (graph_at h shape_compute_graph) (\<lambda>g.
       case alloc h (copy g) of
         (h0, p) \<Rightarrow>
           bindE (node_at h0 n) (\<lambda>nd.
             for_each [0..<length (n_inputs nd)] specialize_input
               (h0, \<lparr>node_input_tensor_indices = [], graph_ptr = p, node_ptr = n\<rparr>)))"

text \<open>The body of the loop over the uses in \<open>substituteTensorProperties\<close> (lines 120 to 136).\<close>

definition substitute_use :: "gptr \<Rightarrow> int option list \<Rightarrow> heap \<Rightarrow> user \<Rightarrow> error + heap" where
  "substitute_use p dims h u =
     bindE (user_node h p u) (\<lambda>usr.
       case n_kind usr of
         aten_len \<Rightarrow>
           bindE (node_output usr) (\<lambda>out.
             replaceWithIValue h (p, out) (IInt (to_int64 (int (length dims)))))
       | aten_getitem \<Rightarrow>
           bindE (at (n_inputs usr) 1) (\<lambda>iv.
           bindE (graph_at h p) (\<lambda>g.
           bindE (constant_as_int g iv) (\<lambda>index.
             case index of
               None \<Rightarrow> Inr h
             | Some k \<Rightarrow>
                 (case normIndex k (length dims) of
                    None \<Rightarrow> Inr h
                  | Some norm_index \<Rightarrow>
                      bindE (at dims norm_index) (\<lambda>d.
                        case d of
                          None \<Rightarrow> Inr h
                        | Some static_size \<Rightarrow>
                            bindE (node_output usr) (\<lambda>out.
                              replaceWithIValue h (p, out) (IInt static_size)))))))
       | _ \<Rightarrow> Inr h)"

definition substituteTensorProperties ::
  "SymbolicShapeAnalyzer \<Rightarrow> heap \<Rightarrow> nat \<Rightarrow> error + heap" where
  "substituteTensorProperties a h node_input_tensor_index =
     bindE (node_input h (node_ptr a) node_input_tensor_index) (\<lambda>node_tensor_index_value.
     bindE (value_type h node_tensor_index_value) (\<lambda>ty.
       case castTensorType ty of
         None \<Rightarrow> Inl IRAssert
       | Some tt \<Rightarrow>
           (case symbolic_sizes tt of
              None \<Rightarrow> Inr h
            | Some dims \<Rightarrow>
                bindE (graph_input h (graph_ptr a) node_input_tensor_index) (\<lambda>gi.
                bindE (graph_at h (fst gi)) (\<lambda>g.
                  for_each (map fst (uses g (snd gi))) (substitute_use (graph_ptr a) dims) h)))))"

definition substituteInputTensorProperties :: "SymbolicShapeAnalyzer \<Rightarrow> heap \<Rightarrow> error + heap" where
  "substituteInputTensorProperties a h =
     for_each (node_input_tensor_indices a) (substituteTensorProperties a) h"

definition extractOutputShape :: "SymbolicShapeAnalyzer \<Rightarrow> heap \<Rightarrow> error + symbolic_shape" where
  "extractOutputShape a h =
     bindE (graph_at h (graph_ptr a)) (\<lambda>g.
       if length (g_outputs g) \<noteq> 1 then Inl InternalAssert
       else
         bindE (at (g_outputs g) 0) (\<lambda>out.
           if g_type g out \<noteq> ListType IntType then Inl InternalAssert
           else
             (case value_kind g out of
                prim_Constant c \<Rightarrow>
                  (case c of IIntList int_list \<Rightarrow> Inr (Some (map Some int_list))
                   | _ \<Rightarrow> Inl IRAssert)
              | prim_ListConstruct \<Rightarrow>
                  if length (uses g out) \<noteq> 1 then Inr None
                  else
                    (case producer g out of
                       None \<Rightarrow> Inl NullDeref
                     | Some list_construct \<Rightarrow>
                         bindE (mapE (constant_as_int g) (n_inputs list_construct))
                           (\<lambda>output_shape. Inr (Some output_shape)))
              | _ \<Rightarrow> Inr None)))"

text \<open>
  Modelled from the spec: the simplification passes are defined outside this file. Each
  takes the program graph and rewrites it in place; they are parameters of the model.
\<close>

record passes =
  LowerSimpleTuples :: "graph \<Rightarrow> graph"
  RemoveListMutation :: "graph \<Rightarrow> graph"
  UnrollConstantLoops :: "graph \<Rightarrow> graph"
  ConstantPropagation :: "graph \<Rightarrow> graph"
  PeepholeOptimize :: "graph \<Rightarrow> graph"
  ConstantPooling :: "graph \<Rightarrow> graph"
  EliminateDeadCode :: "graph \<Rightarrow> graph"

definition apply_pass :: "(graph \<Rightarrow> graph) \<Rightarrow> gptr \<Rightarrow> heap \<Rightarrow> error + heap" where
  "apply_pass f p h = bindE (graph_at h p) (\<lambda>g. Inr (h[p := Some (f g)]))"

definition num_optimization_iters :: nat where
  "num_optimization_iters = 6"

text \<open>The body of the loop of \<open>run\<close> (lines 89 to 95).\<close>

definition run_iteration :: "passes \<Rightarrow> SymbolicShapeAnalyzer \<Rightarrow> heap \<Rightarrow> nat \<Rightarrow> error + heap" where
  "run_iteration ps a h i =
     bindE (substituteInputTensorProperties a h) (\<lambda>h1.
     bindE (apply_pass (LowerSimpleTuples ps) (graph_ptr a) h1) (\<lambda>h2.
     bindE (apply_pass (RemoveListMutation ps) (graph_ptr a) h2) (\<lambda>h3.
     bindE (apply_pass (UnrollConstantLoops ps) (graph_ptr a) h3) (\<lambda>h4.
     bindE (apply_pass (ConstantPropagation ps) (graph_ptr a) h4) (\<lambda>h5.
     bindE (apply_pass (PeepholeOptimize ps) (graph_ptr a) h5) (\<lambda>h6.
     apply_pass (ConstantPropagation ps) (graph_ptr a) h6))))))"

definition run :: "passes \<Rightarrow> SymbolicShapeAnalyzer \<Rightarrow> heap \<Rightarrow> error + symbolic_shape \<times> heap" where
  "run ps a h =
     bindE (for_each [0..<num_optimization_iters] (run_iteration ps a) h) (\<lambda>h1.
     bindE (apply_pass (ConstantPooling ps) (graph_ptr a) h1) (\<lambda>h2.
     bindE (apply_pass (EliminateDeadCode ps) (graph_ptr a) h2) (\<lambda>h3.
     bindE (extractOutputShape a h3) (\<lambda>out. Inr (out, h3)))))"

text \<open>
  \<open>SymbolicShapeAnalyzer(n, shape_compute_graph).run()\<close>: the analyzer is a temporary,
  and its graph is released when the expression has been evaluated.
\<close>

definition analyze :: "passes \<Rightarrow> heap \<Rightarrow> node_ptr \<Rightarrow> gptr \<Rightarrow> error + symbolic_shape \<times> heap" where
  "analyze ps h n shape_compute_graph =
     bindE (SymbolicShapeAnalyzer_init h n shape_compute_graph) (\<lambda>(h1, a).
     bindE (run ps a h1) (\<lambda>(out, h2). Inr (out, release h2 (graph_ptr a))))"

definition PropagateShapesWithShapeFunction ::
  "passes \<Rightarrow> heap \<Rightarrow> node_ptr \<Rightarrow> gptr \<Rightarrow> error + heap" where
  "PropagateShapesWithShapeFunction ps h n shape_compute_graph =
     bindE (analyze ps h n shape_compute_graph) (\<lambda>(out, h1).
     bindE (node_at h1 n) (\<lambda>nd.
     bindE (node_output nd) (\<lambda>ov.
     bindE (value_type h1 (fst n, ov)) (\<lambda>ty.
       case castTensorType ty of
         None \<Rightarrow> Inl IRAssert
       | Some tt \<Rightarrow> setType h1 (fst n, ov) (TensorType (withSymbolicShapes tt out))))))"

text \<open>
  The global state of the file: the store of graphs and the registry
  \<open>operator_functions\<close>, keyed by \<open>toString(n->schema())\<close>. The mutex is not modelled:
  the functions run one at a time.
\<close>

record world =
  w_heap :: heap
  operator_functions :: "string \<Rightarrow> gptr option"

definition RegisterOperatorShapeFunction :: "world \<Rightarrow> node_ptr \<Rightarrow> gptr \<Rightarrow> error + world" where
  "RegisterOperatorShapeFunction w n gp =
     bindE (node_at (w_heap w) n) (\<lambda>nd.
       case n_schema nd of
         None \<Rightarrow> Inr w
       | Some sig \<Rightarrow>
           if operator_functions w sig \<noteq> None then Inr w
           else Inr (w\<lparr>operator_functions := (operator_functions w)(sig \<mapsto> gp)\<rparr>))"

text \<open>The body of the loop of \<open>PropagateShapesOnGraph\<close> (lines 198 to 203).\<close>

definition propagate_node ::
  "passes \<Rightarrow> (string \<Rightarrow> gptr option) \<Rightarrow> gptr \<Rightarrow> heap \<Rightarrow> nid \<Rightarrow> error + heap" where
  "propagate_node ps registry gp h i =
     bindE (node_at h (gp, i)) (\<lambda>nd.
       case n_schema nd of
         None \<Rightarrow> Inr h
       | Some sig \<Rightarrow>
           (case registry sig of
              None \<Rightarrow> Inr h
            | Some shape_compute_graph \<Rightarrow>
                PropagateShapesWithShapeFunction ps h (gp, i) shape_compute_graph))"

definition PropagateShapesOnGraph :: "passes \<Rightarrow> world \<Rightarrow> gptr \<Rightarrow> error + world" where
  "PropagateShapesOnGraph ps w gp =
     bindE (graph_at (w_heap w) gp) (\<lambda>g.
     bindE (for_each (map fst (graph_nodes g)) (propagate_node ps (operator_functions w) gp)
              (w_heap w))
       (\<lambda>h1. Inr (w\<lparr>w_heap := h1\<rparr>)))"

subsection \<open>The substitution rule, as the specification words it\<close>

text \<open>
  The statically known integer index of an indexing query: the constant behind the
  second input of the \<open>aten::__getitem__\<close> node, if there is one.
\<close>

definition static_index :: "graph \<Rightarrow> node \<Rightarrow> int option" where
  "static_index g usr =
     (case toIValue g (n_inputs usr ! 1) of Some (IInt k) \<Rightarrow> Some k | _ \<Rightarrow> None)"

text \<open>
  The constant that replaces the result of a use, on the mathematical integers: the rank
  for a length query; for an indexing query with known index \<open>k\<close>, the static size of
  dimension \<open>k\<close> (or \<open>k + r\<close> when \<open>k < 0\<close>) when that index is in \<open>[0, r)\<close> and the
  dimension is known; nothing otherwise.
\<close>

definition spec_substitution :: "int option list \<Rightarrow> node_kind \<Rightarrow> int option \<Rightarrow> int option" where
  "spec_substitution dims kind index =
     (let r = int (length dims) in
      case kind of
        aten_len \<Rightarrow> Some r
      | aten_getitem \<Rightarrow>
          (case index of
             None \<Rightarrow> None
           | Some k \<Rightarrow>
               (let j = (if k < 0 then k + r else k)
                in if 0 \<le> j \<and> j < r then dims ! nat j else None))
      | _ \<Rightarrow> None)"

subsection \<open>A worked example\<close>

text \<open>
  An operator with one tensor input of rank 4 whose last two dimensions are known, and the
  shape program \<open>[len(x), x[-5], x[-1], x[1]]\<close>.
\<close>

definition ex_tensor :: tensor_type where
  "ex_tensor = \<lparr>symbolic_sizes = Some [None, None, Some 5, Some 7], tensor_props = ''Float''\<rparr>"

definition ex_target :: graph where
  "ex_target =
     \<lparr>g_inputs = [0],
      g_nodes = [(1, \<lparr>n_kind = other_kind ''aten::foo'', n_inputs = [0], n_outputs = [1],
                      n_schema = Some ''aten::foo(Tensor self) -> Tensor'', n_block = 0\<rparr>)],
      g_outputs = [1],
      g_type = (\<lambda>v. if v = 0 then TensorType ex_tensor
                     else TensorType \<lparr>symbolic_sizes = None, tensor_props = ''Float''\<rparr>),
      g_next = 2\<rparr>"

definition ex_program :: graph where
  "ex_program =
     \<lparr>g_inputs = [0],
      g_nodes =
        [(1, \<lparr>n_kind = prim_Constant (IInt 1), n_inputs = [], n_outputs = [1], n_schema = None, n_block = 0\<rparr>),
         (2, \<lparr>n_kind = prim_Constant (IInt (- 5)), n_inputs = [], n_outputs = [2], n_schema = None, n_block = 0\<rparr>),
         (3, \<lparr>n_kind = prim_Constant (IInt (- 1)), n_inputs = [], n_outputs = [3], n_schema = None, n_block = 0\<rparr>),
         (4, \<lparr>n_kind = aten_len, n_inputs = [0], n_outputs = [4], n_schema = None, n_block = 0\<rparr>),
         (5, \<lparr>n_kind = aten_getitem, n_inputs = [0, 2], n_outputs = [5], n_schema = None, n_block = 0\<rparr>),
         (6, \<lparr>n_kind = aten_getitem, n_inputs = [0, 3], n_outputs = [6], n_schema = None, n_block = 0\<rparr>),
         (7, \<lparr>n_kind = aten_getitem, n_inputs = [0, 1], n_outputs = [7], n_schema = None, n_block = 0\<rparr>),
         (8, \<lparr>n_kind = prim_ListConstruct, n_inputs = [4, 5, 6, 7], n_outputs = [8],
               n_schema = None, n_block = 0\<rparr>)],
      g_outputs = [8],
      g_type = (\<lambda>v. if v = 0 \<or> v = 8 then ListType IntType else IntType),
      g_next = 9\<rparr>"

definition ex_heap :: heap where
  "ex_heap = [Some ex_target, Some ex_program]"

definition id_passes :: passes where
  "id_passes = \<lparr>LowerSimpleTuples = id, RemoveListMutation = id, UnrollConstantLoops = id,
     ConstantPropagation = id, PeepholeOptimize = id, ConstantPooling = id,
     EliminateDeadCode = id\<rparr>"

subsection \<open>The analyzer as a function of its own graph\<close>

text \<open>
  Auxiliary definitions for the proofs. The analyzer reads of the analyzed node only the
  type and the constant (if any) of each input, and writes only to its own graph; the
  functions below are the functions of the file on that graph alone. The lifting lemmas
  (\<open>substitute_use_lift\<close> to \<open>analyze_lift\<close>) show that the functions of the file
  compute exactly these on the cell of the analyzer's graph and leave every other cell as
  it is.
\<close>

type_synonym op_input = "jtype \<times> ivalue option"

definition op_inputs :: "graph \<Rightarrow> node \<Rightarrow> op_input list" where
  "op_inputs tg nd = map (\<lambda>v. (g_type tg v, toIValue tg v)) (n_inputs nd)"

definition lift :: "heap \<Rightarrow> gptr \<Rightarrow> error + graph \<Rightarrow> error + heap" where
  "lift h p r = (case r of Inl e \<Rightarrow> Inl e | Inr g \<Rightarrow> Inr (h[p := Some g]))"

definition replaceG :: "graph \<Rightarrow> vid \<Rightarrow> ivalue \<Rightarrow> graph" where
  "replaceG g v val =
     (case insertConstant g (owning_block g v) val of (g1, c) \<Rightarrow> replaceAllUsesWith g1 v c)"

definition user_nodeG :: "graph \<Rightarrow> user \<Rightarrow> error + node" where
  "user_nodeG g u =
     (case u of
        UNode i \<Rightarrow> (case map_of (g_nodes g) i of None \<Rightarrow> Inl NullDeref | Some nd \<Rightarrow> Inr nd)
      | UReturn \<Rightarrow> Inr (return_node g))"

definition substitute_useG :: "int option list \<Rightarrow> graph \<Rightarrow> user \<Rightarrow> error + graph" where
  "substitute_useG dims g u =
     bindE (user_nodeG g u) (\<lambda>usr.
       case n_kind usr of
         aten_len \<Rightarrow>
           bindE (node_output usr) (\<lambda>out.
             Inr (replaceG g out (IInt (to_int64 (int (length dims))))))
       | aten_getitem \<Rightarrow>
           bindE (at (n_inputs usr) 1) (\<lambda>iv.
           bindE (constant_as_int g iv) (\<lambda>index.
             case index of
               None \<Rightarrow> Inr g
             | Some k \<Rightarrow>
                 (case normIndex k (length dims) of
                    None \<Rightarrow> Inr g
                  | Some norm_index \<Rightarrow>
                      bindE (at dims norm_index) (\<lambda>d.
                        case d of
                          None \<Rightarrow> Inr g
                        | Some static_size \<Rightarrow>
                            bindE (node_output usr) (\<lambda>out.
                              Inr (replaceG g out (IInt static_size)))))))
       | _ \<Rightarrow> Inr g)"

definition substituteTensorPropertiesG :: "op_input list \<Rightarrow> graph \<Rightarrow> nat \<Rightarrow> error + graph" where
  "substituteTensorPropertiesG ins g i =
     bindE (at ins i) (\<lambda>inp.
       case castTensorType (fst inp) of
         None \<Rightarrow> Inl IRAssert
       | Some tt \<Rightarrow>
           (case symbolic_sizes tt of
              None \<Rightarrow> Inr g
            | Some dims \<Rightarrow>
                bindE (at (g_inputs g) i) (\<lambda>gi.
                  for_each (map fst (uses g gi)) (substitute_useG dims) g)))"

definition specialize_inputG ::
  "op_input list \<Rightarrow> graph \<times> nat list \<Rightarrow> nat \<Rightarrow> error + graph \<times> nat list" where
  "specialize_inputG ins s i =
     (case s of (g, tracked) \<Rightarrow>
        bindE (at ins i) (\<lambda>inp.
          case castTensorType (fst inp) of
            Some tt \<Rightarrow>
              (if isComplete (symbolic_sizes tt) then
                 bindE (at (g_inputs g) i) (\<lambda>gi.
                   case concrete_sizes (symbolic_sizes tt) of
                     None \<Rightarrow> Inl IRAssert
                   | Some sizes \<Rightarrow> Inr (replaceG g gi (IIntList sizes), tracked))
               else if rank (symbolic_sizes tt) \<noteq> None then Inr (g, tracked @ [i])
               else Inr (g, tracked))
          | None \<Rightarrow>
              if isTensorList (fst inp) then Inl InternalAssert
              else
                (case snd inp of
                   None \<Rightarrow> Inr (g, tracked)
                 | Some ival \<Rightarrow>
                     bindE (at (g_inputs g) i) (\<lambda>gi. Inr (replaceG g gi ival, tracked)))))"

definition run_iterationG ::
  "passes \<Rightarrow> op_input list \<Rightarrow> nat list \<Rightarrow> graph \<Rightarrow> nat \<Rightarrow> error + graph" where
  "run_iterationG ps ins tracked g i =
     bindE (for_each tracked (substituteTensorPropertiesG ins) g) (\<lambda>g1.
       Inr (ConstantPropagation ps (PeepholeOptimize ps (ConstantPropagation ps
             (UnrollConstantLoops ps (RemoveListMutation ps (LowerSimpleTuples ps g1)))))))"

definition simplifyG :: "passes \<Rightarrow> op_input list \<Rightarrow> nat list \<Rightarrow> graph \<Rightarrow> error + graph" where
  "simplifyG ps ins tracked g =
     bindE (for_each [0..<num_optimization_iters] (run_iterationG ps ins tracked) g) (\<lambda>g1.
       Inr (EliminateDeadCode ps (ConstantPooling ps g1)))"

definition extractOutputShapeG :: "graph \<Rightarrow> error + symbolic_shape" where
  "extractOutputShapeG g =
     (if length (g_outputs g) \<noteq> 1 then Inl InternalAssert
      else
        bindE (at (g_outputs g) 0) (\<lambda>out.
          if g_type g out \<noteq> ListType IntType then Inl InternalAssert
          else
            (case value_kind g out of
               prim_Constant c \<Rightarrow>
                 (case c of IIntList int_list \<Rightarrow> Inr (Some (map Some int_list))
                  | _ \<Rightarrow> Inl IRAssert)
             | prim_ListConstruct \<Rightarrow>
                 if length (uses g out) \<noteq> 1 then Inr None
                 else
                   (case producer g out of
                      None \<Rightarrow> Inl NullDeref
                    | Some list_construct \<Rightarrow>
                        bindE (mapE (constant_as_int g) (n_inputs list_construct))
                          (\<lambda>output_shape. Inr (Some output_shape)))
             | _ \<Rightarrow> Inr None)))"

definition specializeG :: "op_input list \<Rightarrow> graph \<Rightarrow> error + graph \<times> nat list" where
  "specializeG ins g0 = for_each [0..<length ins] (specialize_inputG ins) (copy g0, [])"

definition analyzeG :: "passes \<Rightarrow> op_input list \<Rightarrow> graph \<Rightarrow> error + symbolic_shape" where
  "analyzeG ps ins g0 =
     bindE (specializeG ins g0) (\<lambda>s.
     bindE (simplifyG ps ins (snd s) (fst s)) extractOutputShapeG)"

definition runG ::
  "passes \<Rightarrow> op_input list \<Rightarrow> nat list \<Rightarrow> graph \<Rightarrow> error + symbolic_shape \<times> graph" where
  "runG ps ins tracked g =
     bindE (simplifyG ps ins tracked g) (\<lambda>g1.
     bindE (extractOutputShapeG g1) (\<lambda>out. Inr (out, g1)))"

definition reads :: "heap \<Rightarrow> node_ptr \<Rightarrow> graph \<Rightarrow> node \<Rightarrow> bool" where
  "reads h n tg nd \<longleftrightarrow> graph_at h (fst n) = Inr tg \<and> map_of (g_nodes tg) (snd n) = Some nd"

definition liftS ::
  "heap \<Rightarrow> SymbolicShapeAnalyzer \<Rightarrow> error + graph \<times> nat list \<Rightarrow>
   error + heap \<times> SymbolicShapeAnalyzer" where
  "liftS h a r =
     (case r of
        Inl e \<Rightarrow> Inl e
      | Inr s \<Rightarrow> Inr (h[graph_ptr a := Some (fst s)], a\<lparr>node_input_tensor_indices := snd s\<rparr>))"

subsection \<open>Replacement by a constant, as the specification words it\<close>

text \<open>
  What it is for a value \<open>v\<close> of the graph \<open>g\<close> to have been replaced by the constant
  \<open>val\<close> in \<open>g1\<close>: the next fresh name of \<open>g\<close> is in \<open>g1\<close> a constant of that
  value and of its type, the uses that \<open>v\<close> had are the uses of the constant, \<open>v\<close> has no
  use left, and nothing else has changed: the inputs of the graph, and of every other value
  its type, the kind of the node that makes it, and its uses.
\<close>

definition replaced_by_constant :: "graph \<Rightarrow> vid \<Rightarrow> ivalue \<Rightarrow> graph \<Rightarrow> bool" where
  "replaced_by_constant g v val g1 \<longleftrightarrow>
     toIValue g1 (g_next g) = Some val
     \<and> g_type g1 (g_next g) = type_of_ivalue val
     \<and> uses g1 (g_next g) = uses g v
     \<and> uses g1 v = []
     \<and> g_inputs g1 = g_inputs g
     \<and> (\<forall>w. w \<noteq> g_next g \<longrightarrow> g_type g1 w = g_type g w \<and> value_kind g1 w = value_kind g w)
     \<and> (\<forall>w. w \<noteq> g_next g \<and> w \<noteq> v \<longrightarrow> uses g1 w = uses g w)"

subsection \<open>Output extraction and the driver, as the specification words them\<close>

text \<open>
  A constant element of the list construction is a known dimension; every other element is
  an unknown one.
\<close>

definition elem_dim :: "graph \<Rightarrow> vid \<Rightarrow> int option" where
  "elem_dim g v = (case toIValue g v of Some (IInt k) \<Rightarrow> Some k | _ \<Rightarrow> None)"

text \<open>
  The rewriting of one round, in the order of the specification: tuple lowering is applied
  first, then list-mutation removal, loop unrolling, constant propagation, peephole
  simplification, and constant propagation again. The final rewriting: constant pooling,
  then dead-code elimination.
\<close>

definition round_rewrite :: "passes \<Rightarrow> graph \<Rightarrow> graph" where
  "round_rewrite ps g =
     ConstantPropagation ps (PeepholeOptimize ps (ConstantPropagation ps
       (UnrollConstantLoops ps (RemoveListMutation ps (LowerSimpleTuples ps g)))))"

definition final_rewrite :: "passes \<Rightarrow> graph \<Rightarrow> graph" where
  "final_rewrite ps g = EliminateDeadCode ps (ConstantPooling ps g)"

text \<open>
  One round: property substitution for every tracked index, then the analyzer's program
  is the rewriting of the round of what it was. A run: six rounds, then the analyzer's
  program is the final rewriting of what it was, then the extraction.
\<close>

definition spec_round :: "passes \<Rightarrow> SymbolicShapeAnalyzer \<Rightarrow> heap \<Rightarrow> error + heap" where
  "spec_round ps a h =
     bindE (for_each (node_input_tensor_indices a) (substituteTensorProperties a) h) (\<lambda>h1.
       case lookup h1 (graph_ptr a) of
         None \<Rightarrow> Inl NullDeref
       | Some g \<Rightarrow> Inr (h1[graph_ptr a := Some (round_rewrite ps g)]))"

fun repeatE :: "nat \<Rightarrow> ('s \<Rightarrow> error + 's) \<Rightarrow> 's \<Rightarrow> error + 's" where
  "repeatE 0 f s = Inr s"
| "repeatE (Suc n) f s = bindE (f s) (repeatE n f)"

definition spec_run ::
  "passes \<Rightarrow> SymbolicShapeAnalyzer \<Rightarrow> heap \<Rightarrow> error + symbolic_shape \<times> heap" where
  "spec_run ps a h =
     bindE (repeatE 6 (spec_round ps a) h) (\<lambda>h1.
       case lookup h1 (graph_ptr a) of
         None \<Rightarrow> Inl NullDeref
       | Some g \<Rightarrow>
           (let h2 = h1[graph_ptr a := Some (final_rewrite ps g)]
            in bindE (extractOutputShape a h2) (\<lambda>out. Inr (out, h2))))"

subsection \<open>Graph-wide propagation, as the specification words it\<close>

text \<open>
  The step at one operation of the target graph. An operation with no schema, or whose
  signature is not in the registry, leaves the store as it is. For an operation with a
  registered shape program the analyzer runs; when it returns a shape, the operation must
  have one output, of tensor type, and then the store is the old store with the released
  cell of the analyzer's copy appended and, in the target graph, the type of that output
  overwritten: the same tensor type with the derived shape as its symbolic shape.
\<close>

definition spec_propagate_step ::
  "passes \<Rightarrow> (string \<Rightarrow> gptr option) \<Rightarrow> gptr \<Rightarrow> heap \<Rightarrow> nid \<Rightarrow> error + heap" where
  "spec_propagate_step ps registry gp h i =
     (case lookup h gp of
        None \<Rightarrow> Inl NullDeref
      | Some tg \<Rightarrow>
          (case map_of (g_nodes tg) i of
             None \<Rightarrow> Inl NullDeref
           | Some nd \<Rightarrow>
               (case n_schema nd of
                  None \<Rightarrow> Inr h
                | Some sig \<Rightarrow>
                    (case registry sig of
                       None \<Rightarrow> Inr h
                     | Some sp \<Rightarrow>
                         (case analyze ps h (gp, i) sp of
                            Inl e \<Rightarrow> Inl e
                          | Inr r \<Rightarrow>
                              (case n_outputs nd of
                                 [ov] \<Rightarrow>
                                   (case g_type tg ov of
                                      TensorType tt \<Rightarrow>
                                        Inr ((h @ [None])
                                          [gp := Some (tg\<lparr>g_type := (g_type tg)
                                             (ov := TensorType (tt\<lparr>symbolic_sizes := fst r\<rparr>))\<rparr>)])
                                    | _ \<Rightarrow> Inl IRAssert)
                               | _ \<Rightarrow> Inl IRAssert))))))"

text \<open>
  The traversal: the step at every operation of the top-level block of the target graph,
  in program order; operations in the blocks of other operations are not visited. The
  registry is not written.
\<close>

definition spec_propagate :: "passes \<Rightarrow> world \<Rightarrow> gptr \<Rightarrow> error + world" where
  "spec_propagate ps w gp =
     (case lookup (w_heap w) gp of
        None \<Rightarrow> Inl NullDeref
      | Some g \<Rightarrow>
          (case for_each (map fst (filter (\<lambda>(i, n). n_block n = 0) (g_nodes g)))
                  (spec_propagate_step ps (operator_functions w) gp) (w_heap w) of
             Inl e \<Rightarrow> Inl e
           | Inr h1 \<Rightarrow> Inr (w\<lparr>w_heap := h1\<rparr>)))"

text \<open>
  The outputs of the top-level nodes whose signature is registered, and the relation
  between the target graph before and after: the same graph but for the types of such
  outputs, whose tensor type keeps everything but its symbolic shape.
\<close>

definition registered_outputs :: "(string \<Rightarrow> gptr option) \<Rightarrow> graph \<Rightarrow> vid set" where
  "registered_outputs registry g =
     {v. \<exists>i nd sig. (i, nd) \<in> set (g_nodes g) \<and> n_block nd = 0 \<and> n_schema nd = Some sig
           \<and> registry sig \<noteq> None \<and> v \<in> set (n_outputs nd)}"

definition shapes_refined :: "vid set \<Rightarrow> graph \<Rightarrow> graph \<Rightarrow> bool" where
  "shapes_refined S g g1 \<longleftrightarrow>
     g_inputs g1 = g_inputs g \<and> g_nodes g1 = g_nodes g \<and> g_outputs g1 = g_outputs g
     \<and> g_next g1 = g_next g
     \<and> (\<forall>v. g_type g1 v = g_type g v
            \<or> (v \<in> S \<and> (\<exists>tt s. g_type g v = TensorType tt
                               \<and> g_type g1 v = TensorType (withSymbolicShapes tt s))))"

subsection \<open>Input specialization: which positions are tracked\<close>

text \<open>
  A position is tracked when its input is a tensor of known rank whose shape is not fully
  known.
\<close>

definition is_tracked :: "jtype \<Rightarrow> bool" where
  "is_tracked ty =
     (case castTensorType ty of
        None \<Rightarrow> False
      | Some tt \<Rightarrow> \<not> isComplete (symbolic_sizes tt) \<and> rank (symbolic_sizes tt) \<noteq> None)"

subsection \<open>Well-formed shape programs\<close>

text \<open>
  The values a graph mentions. A node is in order when it is as its schema says: the output
  of a constant has the type of the constant; \<open>aten::len\<close> has one output, an integer;
  \<open>aten::__getitem__\<close> has one output and two inputs, the second an integer, and yields
  an integer from a list of integers; a list construction that makes a list of integers
  takes integers.
\<close>

definition graph_values :: "graph \<Rightarrow> vid set" where
  "graph_values g =
     set (g_inputs g) \<union> set (g_outputs g)
     \<union> (\<Union>n \<in> snd ` set (g_nodes g). set (n_inputs n) \<union> set (n_outputs n))"

definition node_ok :: "graph \<Rightarrow> node \<Rightarrow> bool" where
  "node_ok g n =
     (case n_kind n of
        prim_Constant c \<Rightarrow> (\<forall>v. v \<in> set (n_outputs n) \<longrightarrow> g_type g v = type_of_ivalue c)
      | aten_len \<Rightarrow> (\<exists>v. n_outputs n = [v] \<and> g_type g v = IntType)
      | aten_getitem \<Rightarrow>
          (\<exists>v x k. n_outputs n = [v] \<and> n_inputs n = [x, k] \<and> g_type g k = IntType
             \<and> (g_type g x = ListType IntType \<longrightarrow> g_type g v = IntType))
      | prim_ListConstruct \<Rightarrow>
          (\<forall>v. v \<in> set (n_outputs n) \<and> g_type g v = ListType IntType \<longrightarrow>
             (\<forall>x. x \<in> set (n_inputs n) \<longrightarrow> g_type g x = IntType))
      | _ \<Rightarrow> True)"

text \<open>
  The program's inputs are aligned with the inputs of the analyzed operator: there are as
  many at least, a tensor position is a list of integers in the program, and a position
  with a known constant has the type of that constant.
\<close>

definition inputs_aligned :: "op_input list \<Rightarrow> graph \<Rightarrow> bool" where
  "inputs_aligned ins g \<longleftrightarrow>
     length ins \<le> length (g_inputs g)
     \<and> (\<forall>i. i < length ins \<longrightarrow>
          (case castTensorType (fst (ins ! i)) of
             Some tt \<Rightarrow> g_type g (g_inputs g ! i) = ListType IntType
           | None \<Rightarrow> (\<forall>c. snd (ins ! i) = Some c \<longrightarrow>
                        g_type g (g_inputs g ! i) = type_of_ivalue c)))"

text \<open>The precondition of the extraction: exactly one output, typed as a list of integers.\<close>

definition singleton_int_list_output :: "graph \<Rightarrow> bool" where
  "singleton_int_list_output g \<longleftrightarrow>
     (\<exists>out. g_outputs g = [out] \<and> g_type g out = ListType IntType)"

text \<open>
  A well-formed shape program for an operator with the inputs \<open>ins\<close>: aligned inputs, every
  name below the counter of fresh names, every node in order and under its own identity,
  and the single output a list of integers.
\<close>

definition wf_program :: "op_input list \<Rightarrow> graph \<Rightarrow> bool" where
  "wf_program ins g \<longleftrightarrow>
     inputs_aligned ins g
     \<and> (\<forall>v. v \<in> graph_values g \<longrightarrow> v < g_next g)
     \<and> (\<forall>i n. (i, n) \<in> set (g_nodes g) \<longrightarrow> i < g_next g \<and> node_ok g n)
     \<and> distinct (map fst (g_nodes g))
     \<and> singleton_int_list_output g"




text \<open>The part of \<open>run\<close> before the extraction: the rounds and the two final passes.\<close>

definition simplify :: "passes \<Rightarrow> SymbolicShapeAnalyzer \<Rightarrow> heap \<Rightarrow> error + heap" where
  "simplify ps a h =
     bindE (for_each [0..<num_optimization_iters] (run_iteration ps a) h) (\<lambda>h1.
     bindE (apply_pass (ConstantPooling ps) (graph_ptr a) h1) (\<lambda>h2.
     apply_pass (EliminateDeadCode ps) (graph_ptr a) h2))"

text \<open>More of the worked example.\<close>

definition ex_analyzer :: SymbolicShapeAnalyzer where
  "ex_analyzer = \<lparr>node_input_tensor_indices = [], graph_ptr = 1, node_ptr = (0, 1)\<rparr>"

definition ex_signature :: string where
  "ex_signature = ''aten::foo(Tensor self) -> Tensor''"

definition ex_world :: world where
  "ex_world = \<lparr>w_heap = ex_heap, operator_functions = [ex_signature \<mapsto> 1]\<rparr>"

definition ex_simplified :: graph where
  "ex_simplified =
     \<lparr>g_inputs = [0],
      g_nodes =
        [(10, \<lparr>n_kind = prim_Constant (IInt 7), n_inputs = [], n_outputs = [10], n_schema = None, n_block = 0\<rparr>),
         (9, \<lparr>n_kind = prim_Constant (IInt 4), n_inputs = [], n_outputs = [9], n_schema = None, n_block = 0\<rparr>),
         (2, \<lparr>n_kind = prim_Constant (IInt (- 5)), n_inputs = [], n_outputs = [2], n_schema = None, n_block = 0\<rparr>),
         (5, \<lparr>n_kind = aten_getitem, n_inputs = [0, 2], n_outputs = [5], n_schema = None, n_block = 0\<rparr>),
         (8, \<lparr>n_kind = prim_ListConstruct, n_inputs = [9, 5, 10, 5], n_outputs = [8],
               n_schema = None, n_block = 0\<rparr>)],
      g_outputs = [8],
      g_type = (\<lambda>v. if v = 0 \<or> v = 8 then ListType IntType else IntType),
      g_next = 11\<rparr>"






text \<open>
  Passes that leave a trace: each appends to the program a node that bears its name and has
  no input and no output. The trace of a program is the list of these names in program
  order.
\<close>

definition mark :: "string \<Rightarrow> graph \<Rightarrow> graph" where
  "mark s g =
     g\<lparr>g_nodes := g_nodes g @ [(g_next g, \<lparr>n_kind = other_kind s, n_inputs = [], n_outputs = [],
                                         n_schema = None, n_block = 0\<rparr>)],
       g_next := Suc (g_next g)\<rparr>"

definition trace_passes :: passes where
  "trace_passes =
     \<lparr>LowerSimpleTuples = mark ''LowerSimpleTuples'',
      RemoveListMutation = mark ''RemoveListMutation'',
      UnrollConstantLoops = mark ''UnrollConstantLoops'',
      ConstantPropagation = mark ''ConstantPropagation'',
      PeepholeOptimize = mark ''PeepholeOptimize'',
      ConstantPooling = mark ''ConstantPooling'',
      EliminateDeadCode = mark ''EliminateDeadCode''\<rparr>"

definition pass_trace :: "graph \<Rightarrow> string list" where
  "pass_trace g =
     concat (map (\<lambda>(i, n). case n_kind n of other_kind s \<Rightarrow> [s] | _ \<Rightarrow> []) (g_nodes g))"

definition ex_round_trace :: "string list" where
  "ex_round_trace =
     [''LowerSimpleTuples'', ''RemoveListMutation'', ''UnrollConstantLoops'',
      ''ConstantPropagation'', ''PeepholeOptimize'', ''ConstantPropagation'']"

definition ex_tracking :: SymbolicShapeAnalyzer where
  "ex_tracking = \<lparr>node_input_tensor_indices = [0], graph_ptr = 1, node_ptr = (0, 1)\<rparr>"

text \<open>
  A target graph whose registered operation is in a block of another operation: the
  top-level block holds a \<open>prim::If\<close> node, and \<open>aten::foo\<close> is in its first block.
\<close>

definition ex_nested_target :: graph where
  "ex_nested_target =
     \<lparr>g_inputs = [0, 3],
      g_nodes =
        [(2, \<lparr>n_kind = other_kind ''prim::If'', n_inputs = [3], n_outputs = [2],
               n_schema = None, n_block = 0\<rparr>),
         (1, \<lparr>n_kind = other_kind ''aten::foo'', n_inputs = [0], n_outputs = [1],
               n_schema = Some ''aten::foo(Tensor self) -> Tensor'', n_block = 1\<rparr>)],
      g_outputs = [2],
      g_type = (\<lambda>v. if v = 0 then TensorType ex_tensor
                     else if v = 3 then BoolType
                     else TensorType \<lparr>symbolic_sizes = None, tensor_props = ''Float''\<rparr>),
      g_next = 4\<rparr>"

definition ex_nested_world :: world where
  "ex_nested_world =
     \<lparr>w_heap = [Some ex_nested_target, Some ex_program],
      operator_functions = [ex_signature \<mapsto> 1]\<rparr>"

section \<open>Properties\<close>

subsection \<open>Basic facts\<close>

lemma bindE_Inr [simp]: "bindE (Inr x) f = f x"
  by (simp add: bindE_def)

lemma bindE_Inl [simp]: "bindE (Inl e) f = Inl e"
  by (simp add: bindE_def)

lemma to_int64_id: "- (2 ^ 63) \<le> x \<Longrightarrow> x < 2 ^ 63 \<Longrightarrow> to_int64 x = x"
  by (simp add: to_int64_def)

lemma to_int64_uint64_add: "to_int64 (to_uint64 (to_uint64 k + l)) = to_int64 (k + l)"
  by (simp add: to_int64_def to_uint64_def mod_simps)

lemma normIndex_math:
  assumes "- (2 ^ 63) \<le> k" "k < 2 ^ 63" "int len < 2 ^ 63"
  shows "normIndex k len =
    (let j = (if k < 0 then k + int len else k)
     in if 0 \<le> j \<and> j < int len then Some (nat j) else None)"
proof -
  have l: "to_int64 (int len) = int len"
    using assms by (simp add: to_int64_id)
  have "k < 0 \<Longrightarrow> to_int64 (k + int len) = k + int len"
    using assms by (intro to_int64_id) auto
  then show ?thesis
    by (simp add: normIndex_def Let_def l to_int64_uint64_add)
qed

lemma to_int64_le: "0 \<le> x \<Longrightarrow> to_int64 x \<le> x"
proof -
  assume "0 \<le> x"
  have "(x + 2 ^ 63) mod 2 ^ 64 \<le> x + 2 ^ 63"
    using \<open>0 \<le> x\<close> by (intro zmod_le_nonneg_dividend) simp
  then show ?thesis by (simp add: to_int64_def)
qed

lemma normIndex_bound: "normIndex k len = Some j \<Longrightarrow> j < len"
  using to_int64_le [of "int len"]
  by (auto simp: normIndex_def Let_def split: if_splits)

lemma at_simps [simp]:
  "i < length xs \<Longrightarrow> at xs i = Inr (xs ! i)"
  "\<not> i < length xs \<Longrightarrow> at xs i = Inl OutOfRange"
  by (simp_all add: at_def)

lemma node_output_single [simp]: "n_outputs n = [v] \<Longrightarrow> node_output n = Inr v"
  by (simp add: node_output_def)

lemma substitute_use_len:
  assumes "user_node h p u = Inr usr" "n_kind usr = aten_len" "n_outputs usr = [out]"
    "int (length dims) < 2 ^ 63"
  shows "substitute_use p dims h u = replaceWithIValue h (p, out) (IInt (int (length dims)))"
  using assms by (simp add: substitute_use_def to_int64_id)

lemma substitute_use_other:
  assumes "user_node h p u = Inr usr" "n_kind usr \<noteq> aten_len" "n_kind usr \<noteq> aten_getitem"
  shows "substitute_use p dims h u = Inr h"
  using assms by (simp add: substitute_use_def split: node_kind.splits)

lemma substitute_use_getitem:
  assumes hp: "graph_at h p = Inr g"
    and u: "user_node h p u = Inr usr"
    and k: "n_kind usr = aten_getitem"
    and out: "n_outputs usr = [out]"
    and ins: "length (n_inputs usr) = 2"
    and idx: "\<forall>c. toIValue g (n_inputs usr ! 1) = Some c \<longrightarrow>
                (\<exists>k. c = IInt k \<and> - (2 ^ 63) \<le> k \<and> k < 2 ^ 63)"
    and r: "int (length dims) < 2 ^ 63"
  shows "substitute_use p dims h u =
    (case spec_substitution dims aten_getitem (static_index g usr) of
       None \<Rightarrow> Inr h
     | Some c \<Rightarrow> replaceWithIValue h (p, out) (IInt c))"
proof (cases "toIValue g (n_inputs usr ! 1)")
  case None
  then show ?thesis
    using hp u k ins
    by (simp add: substitute_use_def constant_as_int_def static_index_def spec_substitution_def)
next
  case (Some c)
  with idx obtain i where c: "c = IInt i" and lo: "- (2 ^ 63) \<le> i" and hi: "i < 2 ^ 63"
    by auto
  have ci: "constant_as_int g (n_inputs usr ! 1) = Inr (Some i)"
    using Some c by (simp add: constant_as_int_def)
  have si: "static_index g usr = Some i"
    using Some c by (simp add: static_index_def)
  note nm = normIndex_math [OF lo hi r]
  show ?thesis
  proof (cases "normIndex i (length dims)")
    case None
    then show ?thesis
      using hp u k ins ci si nm
      by (auto simp: substitute_use_def spec_substitution_def Let_def split: if_splits)
  next
    case (Some j)
    then have jl: "j < length dims" by (rule normIndex_bound)
    from Some nm have jj: "j = nat (if i < 0 then i + int (length dims) else i)"
      and rng: "0 \<le> (if i < 0 then i + int (length dims) else i)"
        "(if i < 0 then i + int (length dims) else i) < int (length dims)"
      by (auto simp: Let_def split: if_splits)
    show ?thesis
      using hp u k ins ci si Some jl out jj rng
      by (auto simp: substitute_use_def spec_substitution_def Let_def split: option.splits)
  qed
qed

lemma substitute_use_rule:
  assumes hp: "graph_at h p = Inr g"
    and r: "int (length dims) < 2 ^ 63"
    and u: "user_node h p u = Inr usr"
    and out: "n_kind usr = aten_len \<or> n_kind usr = aten_getitem \<Longrightarrow> n_outputs usr = [out]"
    and ins: "n_kind usr = aten_getitem \<Longrightarrow> length (n_inputs usr) = 2"
    and idx: "\<forall>c. n_kind usr = aten_getitem \<and> toIValue g (n_inputs usr ! 1) = Some c \<longrightarrow>
                (\<exists>k. c = IInt k \<and> - (2 ^ 63) \<le> k \<and> k < 2 ^ 63)"
  shows "substitute_use p dims h u =
           (case spec_substitution dims (n_kind usr) (static_index g usr) of
              None \<Rightarrow> Inr h
            | Some c \<Rightarrow> replaceWithIValue h (p, out) (IInt c))"
proof -
  consider (len) "n_kind usr = aten_len" | (getitem) "n_kind usr = aten_getitem"
    | (other) "n_kind usr \<noteq> aten_len" "n_kind usr \<noteq> aten_getitem"
    by blast
  then show ?thesis
  proof cases
    case len
    then show ?thesis
      using substitute_use_len [OF u len _ r] out
      by (simp add: spec_substitution_def)
  next
    case getitem
    then show ?thesis
      using substitute_use_getitem [OF hp u getitem _ _ _ r, of out] out ins idx
      by simp
  next
    case other
    then show ?thesis
      using substitute_use_other [OF u other]
      by (simp add: spec_substitution_def Let_def split: node_kind.splits)
  qed
qed

lemma spec_substitution_kind:
  "spec_substitution dims kind index = Some c \<Longrightarrow> kind = aten_len \<or> kind = aten_getitem"
  by (auto simp: spec_substitution_def Let_def split: node_kind.splits)

lemma ex_graph_at_1: "graph_at ex_heap (Suc 0) = Inr ex_program"
  by (simp add: graph_at_def lookup_def ex_heap_def)

lemma ex_graph_at_0: "graph_at ex_heap 0 = Inr ex_target"
  by (simp add: graph_at_def lookup_def ex_heap_def)

subsection \<open>Lifting: the functions of the file write only the analyzer's graph\<close>

lemma graph_at_Inr_iff: "graph_at h p = Inr g \<longleftrightarrow> p < length h \<and> h ! p = Some g"
  by (auto simp: graph_at_def lookup_def split: option.splits)

lemma graph_at_update_same: "p < length h \<Longrightarrow> graph_at (h[p := Some g]) p = Inr g"
  by (simp add: graph_at_Inr_iff)

lemma graph_at_update_other: "q \<noteq> p \<Longrightarrow> graph_at (h[p := x]) q = graph_at h q"
  by (simp add: graph_at_def lookup_def)

lemma update_same: "graph_at h p = Inr g \<Longrightarrow> h[p := Some g] = h"
  by (simp add: graph_at_Inr_iff list_update_same_conv)

lemma lift_Inr [simp]: "lift h p (Inr g) = Inr (h[p := Some g])"
  by (simp add: lift_def)

lemma lift_Inl [simp]: "lift h p (Inl e) = Inl e"
  by (simp add: lift_def)

lemma lift_bindE:
  "lift h p (bindE m f) = bindE m (\<lambda>x. lift h p (f x))"
  by (cases m) simp_all

lemma replaceWithIValue_lift:
  "graph_at h p = Inr g \<Longrightarrow>
   replaceWithIValue h (p, v) val = Inr (h[p := Some (replaceG g v val)])"
  by (simp add: replaceWithIValue_def replaceG_def split: prod.splits)

lemma user_node_lift: "graph_at h p = Inr g \<Longrightarrow> user_node h p u = user_nodeG g u"
  by (simp add: user_node_def user_nodeG_def node_at_def split: user.splits)

lemma substitute_use_lift:
  assumes "graph_at h p = Inr g"
  shows "substitute_use p dims h u = lift h p (substitute_useG dims g u)"
proof -
  have same: "g = g' \<Longrightarrow> h[p := Some g'] = h" for g'
    using assms by (simp add: graph_at_Inr_iff list_update_same_conv)
  show ?thesis
    using assms
    by (auto simp: substitute_use_def substitute_useG_def user_node_lift
        replaceWithIValue_lift same bindE_def
        split: sum.splits node_kind.splits option.splits)
qed

lemma for_each_lift:
  assumes body: "\<And>h g x. graph_at h p = Inr g \<Longrightarrow> Q h \<Longrightarrow> body h x = lift h p (bodyG g x)"
    and keep: "\<And>h g'. Q h \<Longrightarrow> Q (h[p := Some g'])"
    and "graph_at h p = Inr g" "Q h"
  shows "for_each xs body h = lift h p (for_each xs bodyG g)"
  using assms(3,4)
proof (induction xs arbitrary: h g)
  case Nil
  then show ?case
    by (simp add: update_same)
next
  case (Cons x xs)
  show ?case
  proof (cases "bodyG g x")
    case (Inl e)
    then show ?thesis using body [OF Cons.prems, of x] by simp
  next
    case (Inr g1)
    have p: "p < length h" using Cons.prems(1) by (simp add: graph_at_Inr_iff)
    have b: "body h x = Inr (h[p := Some g1])"
      using body [OF Cons.prems, of x] Inr by simp
    have "for_each xs body (h[p := Some g1]) = lift (h[p := Some g1]) p (for_each xs bodyG g1)"
      using p by (intro Cons.IH keep Cons.prems(2)) (simp add: graph_at_update_same)
    then show ?thesis
      using b Inr by (simp add: lift_def split: sum.splits)
  qed
qed

lemma node_at_Inr_iff:
  "node_at h n = Inr nd \<longleftrightarrow> (\<exists>g. graph_at h (fst n) = Inr g \<and> map_of (g_nodes g) (snd n) = Some nd)"
  by (cases "graph_at h (fst n)") (auto simp: node_at_def split: option.splits)

lemma reads_update: "reads h n tg nd \<Longrightarrow> fst n \<noteq> p \<Longrightarrow> reads (h[p := x]) n tg nd"
  by (simp add: reads_def graph_at_update_other)

lemma substituteTensorProperties_lift:
  assumes hp: "graph_at h (graph_ptr a) = Inr g"
    and rd: "reads h (node_ptr a) tg nd"
  shows "substituteTensorProperties a h i =
         lift h (graph_ptr a) (substituteTensorPropertiesG (op_inputs tg nd) g i)"
proof (cases "i < length (n_inputs nd)")
  case False
  then show ?thesis
    using rd
    by (simp add: substituteTensorProperties_def substituteTensorPropertiesG_def
        node_input_def node_at_def reads_def op_inputs_def)
next
  case True
  have ni: "node_input h (node_ptr a) i = Inr (fst (node_ptr a), n_inputs nd ! i)"
    using rd True by (simp add: node_input_def node_at_def reads_def)
  have vt: "value_type h (fst (node_ptr a), n_inputs nd ! i) = Inr (g_type tg (n_inputs nd ! i))"
    using rd by (simp add: value_type_def reads_def)
  have oi: "at (op_inputs tg nd) i = Inr (g_type tg (n_inputs nd ! i), toIValue tg (n_inputs nd ! i))"
    using True by (simp add: op_inputs_def)
  have same: "h[graph_ptr a := Some g] = h"
    using hp by (simp add: graph_at_Inr_iff list_update_same_conv)
  have loop: "for_each us (substitute_use (graph_ptr a) dims) h =
      lift h (graph_ptr a) (for_each us (substitute_useG dims) g)" for us dims
    by (rule for_each_lift [where Q = "\<lambda>_. True"]) (simp_all add: substitute_use_lift hp)
  show ?thesis
  proof (cases "i < length (g_inputs g)")
    case True
    then show ?thesis
      using hp
      by (simp add: substituteTensorProperties_def substituteTensorPropertiesG_def ni vt oi
          graph_input_def same loop split: option.splits)
  next
    case False
    then show ?thesis
      using hp
      by (simp add: substituteTensorProperties_def substituteTensorPropertiesG_def ni vt oi
          graph_input_def same split: option.splits)
  qed
qed

lemma substituteInputTensorProperties_lift:
  assumes hp: "graph_at h (graph_ptr a) = Inr g"
    and rd: "reads h (node_ptr a) tg nd"
    and ne: "fst (node_ptr a) \<noteq> graph_ptr a"
  shows "substituteInputTensorProperties a h =
         lift h (graph_ptr a)
           (for_each (node_input_tensor_indices a) (substituteTensorPropertiesG (op_inputs tg nd)) g)"
  unfolding substituteInputTensorProperties_def
  by (rule for_each_lift [where Q = "\<lambda>h. reads h (node_ptr a) tg nd"])
    (simp_all add: substituteTensorProperties_lift reads_update ne hp rd)

lemma apply_pass_lift: "graph_at h p = Inr g \<Longrightarrow> apply_pass f p h = Inr (h[p := Some (f g)])"
  by (simp add: apply_pass_def)

lemma run_iteration_lift:
  assumes hp: "graph_at h (graph_ptr a) = Inr g"
    and rd: "reads h (node_ptr a) tg nd"
    and ne: "fst (node_ptr a) \<noteq> graph_ptr a"
  shows "run_iteration ps a h i =
         lift h (graph_ptr a)
           (run_iterationG ps (op_inputs tg nd) (node_input_tensor_indices a) g i)"
proof -
  have p: "graph_ptr a < length h"
    using hp by (simp add: graph_at_Inr_iff)
  show ?thesis
    by (cases "for_each (node_input_tensor_indices a)
                 (substituteTensorPropertiesG (op_inputs tg nd)) g")
      (simp_all add: run_iteration_def run_iterationG_def
        substituteInputTensorProperties_lift [OF hp rd ne] apply_pass_lift graph_at_update_same p)
qed

lemma extractOutputShape_lift:
  "graph_at h (graph_ptr a) = Inr g \<Longrightarrow> extractOutputShape a h = extractOutputShapeG g"
  by (simp add: extractOutputShape_def extractOutputShapeG_def)

lemma run_lift:
  assumes hp: "graph_at h (graph_ptr a) = Inr g"
    and rd: "reads h (node_ptr a) tg nd"
    and ne: "fst (node_ptr a) \<noteq> graph_ptr a"
  shows "run ps a h =
         (case runG ps (op_inputs tg nd) (node_input_tensor_indices a) g of
            Inl e \<Rightarrow> Inl e
          | Inr r \<Rightarrow> Inr (fst r, h[graph_ptr a := Some (snd r)]))"
proof -
  let ?ins = "op_inputs tg nd" and ?t = "node_input_tensor_indices a"
  have p: "graph_ptr a < length h"
    using hp by (simp add: graph_at_Inr_iff)
  have loop: "for_each [0..<num_optimization_iters] (run_iteration ps a) h =
      lift h (graph_ptr a) (for_each [0..<num_optimization_iters] (run_iterationG ps ?ins ?t) g)"
    by (rule for_each_lift [where Q = "\<lambda>h. reads h (node_ptr a) tg nd"])
      (simp_all add: run_iteration_lift reads_update ne hp rd)
  show ?thesis
  proof (cases "for_each [0..<num_optimization_iters] (run_iterationG ps ?ins ?t) g")
    case (Inl e)
    then show ?thesis
      by (simp add: run_def runG_def simplifyG_def loop)
  next
    case (Inr g1)
    then show ?thesis
      by (cases "extractOutputShapeG (EliminateDeadCode ps (ConstantPooling ps g1))")
        (simp_all add: run_def runG_def simplifyG_def loop apply_pass_lift graph_at_update_same p
          extractOutputShape_lift)
  qed
qed

lemma specialize_input_lift:
  assumes hp: "graph_at h (graph_ptr a) = Inr g"
    and rd: "reads h (node_ptr a) tg nd"
  shows "specialize_input (h, a) i =
         liftS h a (specialize_inputG (op_inputs tg nd) (g, node_input_tensor_indices a) i)"
proof (cases "i < length (n_inputs nd)")
  case False
  then show ?thesis
    using rd
    by (simp add: specialize_input_def specialize_inputG_def liftS_def
        node_input_def node_at_def reads_def op_inputs_def)
next
  case True
  have ni: "node_input h (node_ptr a) i = Inr (fst (node_ptr a), n_inputs nd ! i)"
    using rd True by (simp add: node_input_def node_at_def reads_def)
  have vt: "value_type h (fst (node_ptr a), n_inputs nd ! i) = Inr (g_type tg (n_inputs nd ! i))"
    using rd by (simp add: value_type_def reads_def)
  have tg: "graph_at h (fst (node_ptr a)) = Inr tg"
    using rd by (simp add: reads_def)
  have oi: "at (op_inputs tg nd) i = Inr (g_type tg (n_inputs nd ! i), toIValue tg (n_inputs nd ! i))"
    using True by (simp add: op_inputs_def)
  have same: "h[graph_ptr a := Some g] = h"
    using hp by (rule update_same)
  show ?thesis
  proof (cases "i < length (g_inputs g)")
    case True
    then show ?thesis
      using hp
      by (simp add: specialize_input_def specialize_inputG_def liftS_def ni vt oi tg
          graph_input_def same replaceWithIValue_lift split: option.splits)
  next
    case False
    then show ?thesis
      using hp
      by (simp add: specialize_input_def specialize_inputG_def liftS_def ni vt oi tg
          graph_input_def same split: option.splits)
  qed
qed

lemma specialize_loop_lift:
  assumes "graph_at h (graph_ptr a) = Inr g"
    and "reads h (node_ptr a) tg nd"
    and ne: "fst (node_ptr a) \<noteq> graph_ptr a"
  shows "for_each xs specialize_input (h, a) =
         liftS h a (for_each xs (specialize_inputG (op_inputs tg nd))
                      (g, node_input_tensor_indices a))"
  using assms(1,2) ne
proof (induction xs arbitrary: h a g)
  case Nil
  then show ?case by (simp add: liftS_def update_same)
next
  case (Cons x xs)
  let ?r = "specialize_inputG (op_inputs tg nd) (g, node_input_tensor_indices a) x"
  show ?case
  proof (cases ?r)
    case (Inl e)
    then show ?thesis
      using specialize_input_lift [OF Cons.prems(1,2), of x] by (simp add: liftS_def)
  next
    case (Inr s)
    let ?h1 = "h[graph_ptr a := Some (fst s)]"
    let ?a1 = "a\<lparr>node_input_tensor_indices := snd s\<rparr>"
    have p: "graph_ptr a < length h"
      using Cons.prems(1) by (simp add: graph_at_Inr_iff)
    have b: "specialize_input (h, a) x = Inr (?h1, ?a1)"
      using specialize_input_lift [OF Cons.prems(1,2), of x] Inr by (simp add: liftS_def)
    have "for_each xs specialize_input (?h1, ?a1) =
        liftS ?h1 ?a1 (for_each xs (specialize_inputG (op_inputs tg nd))
                         (fst s, node_input_tensor_indices ?a1))"
      using p Cons.prems
      by (intro Cons.IH) (simp_all add: graph_at_update_same reads_update)
    then show ?thesis
      using b Inr by (simp add: liftS_def split: sum.splits)
  qed
qed

lemma graph_at_append:
  "graph_at (h @ [x]) q = (if q = length h then (case x of None \<Rightarrow> Inl NullDeref | Some g \<Rightarrow> Inr g)
                           else graph_at h q)"
  by (auto simp: graph_at_def lookup_def nth_append)

lemma reads_append: "reads h n tg nd \<Longrightarrow> reads (h @ [x]) n tg nd"
  by (auto simp: reads_def graph_at_append graph_at_Inr_iff)

lemma reads_iff_node_at: "node_at h n = Inr nd \<longleftrightarrow> (\<exists>tg. reads h n tg nd)"
  by (simp add: node_at_Inr_iff reads_def)

lemma init_lift:
  assumes sp: "graph_at h sp = Inr g0"
    and rd: "reads h n tg nd"
  shows "SymbolicShapeAnalyzer_init h n sp =
         (case specializeG (op_inputs tg nd) g0 of
            Inl e \<Rightarrow> Inl e
          | Inr s \<Rightarrow> Inr (h @ [Some (fst s)],
                          \<lparr>node_input_tensor_indices = snd s, graph_ptr = length h, node_ptr = n\<rparr>))"
proof -
  let ?a = "\<lparr>node_input_tensor_indices = [], graph_ptr = length h, node_ptr = n\<rparr>"
  let ?h0 = "h @ [Some (copy g0)]"
  have n: "fst n < length h"
    using rd by (simp add: reads_def graph_at_Inr_iff)
  have nd: "node_at ?h0 n = Inr nd"
    using reads_append [OF rd] reads_iff_node_at by blast
  have loop: "for_each xs specialize_input (?h0, ?a) =
      liftS ?h0 ?a (for_each xs (specialize_inputG (op_inputs tg nd)) (copy g0, []))" for xs
    using specialize_loop_lift [of ?h0 ?a "copy g0" tg nd xs] reads_append [OF rd] n
    by (simp add: graph_at_append)
  show ?thesis
    using sp nd
    by (simp add: SymbolicShapeAnalyzer_init_def alloc_def loop specializeG_def op_inputs_def
        liftS_def split: sum.splits)
qed

lemma analyze_lift:
  assumes sp: "graph_at h sp = Inr g0"
    and rd: "reads h n tg nd"
  shows "analyze ps h n sp =
         (case analyzeG ps (op_inputs tg nd) g0 of
            Inl e \<Rightarrow> Inl e
          | Inr out \<Rightarrow> Inr (out, h @ [None]))"
proof (cases "specializeG (op_inputs tg nd) g0")
  case (Inl e)
  then show ?thesis
    by (simp add: analyze_def analyzeG_def init_lift [OF sp rd])
next
  case (Inr s)
  let ?a = "\<lparr>node_input_tensor_indices = snd s, graph_ptr = length h, node_ptr = n\<rparr>"
  let ?h1 = "h @ [Some (fst s)]"
  have n: "fst n < length h"
    using rd by (simp add: reads_def graph_at_Inr_iff)
  have r: "run ps ?a ?h1 =
      (case runG ps (op_inputs tg nd) (snd s) (fst s) of
         Inl e \<Rightarrow> Inl e
       | Inr r \<Rightarrow> Inr (fst r, ?h1[length h := Some (snd r)]))"
    using run_lift [of ?h1 ?a "fst s" tg nd ps] reads_append [OF rd] n
    by (simp add: graph_at_append cong: sum.case_cong)
  show ?thesis
    using Inr
    by (auto simp: analyze_def analyzeG_def init_lift [OF sp rd] r runG_def release_def
        bindE_def split: sum.splits)
qed

subsection \<open>The driver, the extraction and the registry\<close>

lemma for_each_const_body:
  "for_each xs (\<lambda>s _. f s) s = repeatE (length xs) f s"
  by (induction xs arbitrary: s) (simp_all add: bindE_def split: sum.splits)

lemma lookup_graph_at: "lookup h p = Some g \<longleftrightarrow> graph_at h p = Inr g"
  by (simp add: graph_at_def split: option.splits)

lemma lookup_None_graph_at: "lookup h p = None \<longleftrightarrow> graph_at h p = Inl NullDeref"
  by (simp add: graph_at_def split: option.splits)

lemma apply_two:
  assumes "graph_at h p = Inr g"
  shows "bindE (apply_pass f p h) k = k (h[p := Some (f g)])"
    and "graph_at (h[p := Some (f g)]) p = Inr (f g)"
  using assms by (simp_all add: apply_pass_lift graph_at_Inr_iff)

lemma run_iteration_spec: "run_iteration ps a h i = spec_round ps a h"
proof (cases "substituteInputTensorProperties a h")
  case (Inl e)
  then show ?thesis
    by (simp add: run_iteration_def spec_round_def substituteInputTensorProperties_def)
next
  case (Inr h1)
  show ?thesis
  proof (cases "lookup h1 (graph_ptr a)")
    case None
    then have "graph_at h1 (graph_ptr a) = Inl NullDeref"
      by (simp add: lookup_None_graph_at)
    then show ?thesis
      using Inr None
      by (simp add: run_iteration_def spec_round_def substituteInputTensorProperties_def
          apply_pass_def)
  next
    case (Some g)
    then have g: "graph_at h1 (graph_ptr a) = Inr g"
      by (simp add: lookup_graph_at)
    let ?p = "graph_ptr a"
    let ?g1 = "LowerSimpleTuples ps g"
    let ?g2 = "RemoveListMutation ps ?g1"
    let ?g3 = "UnrollConstantLoops ps ?g2"
    let ?g4 = "ConstantPropagation ps ?g3"
    let ?g5 = "PeepholeOptimize ps ?g4"
    have 1: "graph_at (h1[?p := Some ?g1]) ?p = Inr ?g1" by (rule apply_two(2) [OF g])
    have 2: "graph_at (h1[?p := Some ?g2]) ?p = Inr ?g2"
      using apply_two(2) [OF 1, of "RemoveListMutation ps"] by simp
    have 3: "graph_at (h1[?p := Some ?g3]) ?p = Inr ?g3"
      using apply_two(2) [OF 2, of "UnrollConstantLoops ps"] by simp
    have 4: "graph_at (h1[?p := Some ?g4]) ?p = Inr ?g4"
      using apply_two(2) [OF 3, of "ConstantPropagation ps"] by simp
    have 5: "graph_at (h1[?p := Some ?g5]) ?p = Inr ?g5"
      using apply_two(2) [OF 4, of "PeepholeOptimize ps"] by simp
    have "run_iteration ps a h i = Inr (h1[?p := Some (ConstantPropagation ps ?g5)])"
      using Inr
      by (simp add: run_iteration_def apply_two(1) [OF g] apply_two(1) [OF 1]
          apply_two(1) [OF 2] apply_two(1) [OF 3] apply_two(1) [OF 4] apply_pass_lift [OF 5])
    then show ?thesis
      using Inr Some
      by (simp add: spec_round_def substituteInputTensorProperties_def round_rewrite_def)
  qed
qed

lemma repeat_round_untracked:
  assumes "node_input_tensor_indices a = []" "graph_at h (graph_ptr a) = Inr g"
  shows "repeatE n (spec_round ps a) h = Inr (h[graph_ptr a := Some ((round_rewrite ps ^^ n) g)])"
  using assms(2)
proof (induction n arbitrary: h g)
  case 0
  then show ?case
    by (simp add: update_same)
next
  case (Suc n)
  from Suc.prems have p: "graph_ptr a < length h" and l: "lookup h (graph_ptr a) = Some g"
    by (auto simp: graph_at_def lookup_def split: if_splits option.splits)
  have r: "spec_round ps a h = Inr (h[graph_ptr a := Some (round_rewrite ps g)])"
    using assms(1) l by (simp add: spec_round_def)
  have "graph_at (h[graph_ptr a := Some (round_rewrite ps g)]) (graph_ptr a)
      = Inr (round_rewrite ps g)"
    using p by (simp add: graph_at_def lookup_def)
  from Suc.IH [OF this] r show ?case
    by (simp add: funpow_swap1)
qed

text \<open>
  C4. One run of the analyzer is exactly: six rounds, whatever the rounds do to the
  program; in each round the property substitution for every tracked index, and then the
  program is rewritten by tuple lowering, list-mutation removal, loop unrolling, constant
  propagation, peephole simplification and constant propagation again, applied in this
  order; after the rounds the program is rewritten by constant pooling and then dead-code
  elimination, once each; then the output shape is extracted from it. The passes are
  arbitrary functions, so the equation fixes their number and order. When no index is
  tracked, the program from which the shape is extracted is the final rewriting of the
  six-fold rewriting of the round of the program the run began with.
\<close>

theorem run_fixed_rounds:
  "run ps a h = spec_run ps a h
   \<and> (node_input_tensor_indices a = [] \<longrightarrow>
        (\<forall>g. graph_at h (graph_ptr a) = Inr g \<longrightarrow>
           run ps a h =
             (let h1 = h[graph_ptr a := Some (final_rewrite ps ((round_rewrite ps ^^ 6) g))]
              in bindE (extractOutputShape a h1) (\<lambda>out. Inr (out, h1)))))"
proof -
  have "run_iteration ps a = (\<lambda>h _. spec_round ps a h)"
    by (intro ext) (rule run_iteration_spec)
  then have loop: "for_each [0..<num_optimization_iters] (run_iteration ps a) h =
      repeatE 6 (spec_round ps a) h"
    by (simp add: for_each_const_body num_optimization_iters_def)
  have eq: "run ps a h = spec_run ps a h"
  proof (cases "repeatE 6 (spec_round ps a) h")
    case (Inl e)
    then show ?thesis
      by (simp add: run_def spec_run_def loop)
  next
    case (Inr h1)
    show ?thesis
    proof (cases "lookup h1 (graph_ptr a)")
      case None
      then have "graph_at h1 (graph_ptr a) = Inl NullDeref"
        by (simp add: lookup_None_graph_at)
      then show ?thesis
        using Inr None by (simp add: run_def spec_run_def loop apply_pass_def)
    next
      case (Some g)
      then have g: "graph_at h1 (graph_ptr a) = Inr g"
        by (simp add: lookup_graph_at)
      note 1 = apply_two(2) [OF g, of "ConstantPooling ps"]
      show ?thesis
        using Inr Some
        by (simp add: run_def spec_run_def loop apply_two(1) [OF g] apply_two(1) [OF 1]
            final_rewrite_def Let_def)
    qed
  qed
  have "run ps a h =
      (let h1 = h[graph_ptr a := Some (final_rewrite ps ((round_rewrite ps ^^ 6) g))]
       in bindE (extractOutputShape a h1) (\<lambda>out. Inr (out, h1)))"
    if t: "node_input_tensor_indices a = []" and g: "graph_at h (graph_ptr a) = Inr g" for g
  proof -
    from g have p: "graph_ptr a < length h"
      by (auto simp: graph_at_def lookup_def split: if_splits option.splits)
    have "lookup (h[graph_ptr a := Some g']) (graph_ptr a) = Some g'" for g'
      using p by (simp add: lookup_def)
    then show ?thesis
      unfolding eq spec_run_def repeat_round_untracked [OF t g]
      by simp
  qed
  with eq show ?thesis by blast
qed

lemma type_of_ivalue_int: "type_of_ivalue c = IntType \<Longrightarrow> \<exists>k. c = IInt k"
  by (cases c) simp_all

lemma type_of_ivalue_int_list: "type_of_ivalue c = ListType IntType \<Longrightarrow> \<exists>xs. c = IIntList xs"
  by (cases c) simp_all

lemma mapE_constant_as_int:
  assumes "\<forall>v \<in> set vs. \<forall>c. toIValue g v = Some c \<longrightarrow> (\<exists>k. c = IInt k)"
  shows "mapE (constant_as_int g) vs = Inr (map (elem_dim g) vs)"
  using assms
proof (induction vs)
  case Nil
  then show ?case by simp
next
  case (Cons v vs)
  have "constant_as_int g v = Inr (elem_dim g v)"
    using Cons.prems by (auto simp: constant_as_int_def elem_dim_def split: option.splits)
  then show ?case using Cons by simp
qed

lemma toIValue_kind: "toIValue g v = Some c \<longleftrightarrow> value_kind g v = prim_Constant c"
  by (simp add: toIValue_def split: node_kind.splits)

lemma value_kind_producer:
  "producer g v = Some n \<Longrightarrow> value_kind g v = n_kind n"
  by (simp add: value_kind_def)

text \<open>
  C2. When the simplified program has one output, typed as a list of integers, and its
  constants are well typed, the extraction is a three-way split: a constant output gives
  the fully concrete shape of its integers; an output made by a list construction and used
  once (by the return node only) gives a shape of known rank, one dimension per element,
  known exactly where the element is a constant; every other output gives the shape of
  unknown rank.
\<close>

theorem extractOutputShape_cases:
  assumes hp: "graph_at h (graph_ptr a) = Inr g"
    and out: "g_outputs g = [out]"
    and ty: "g_type g out = ListType IntType"
    and wt: "\<forall>v c. toIValue g v = Some c \<longrightarrow> g_type g v = type_of_ivalue c"
    and lc: "\<forall>lc. producer g out = Some lc \<and> n_kind lc = prim_ListConstruct \<longrightarrow>
               (\<forall>v \<in> set (n_inputs lc). g_type g v = IntType)"
  shows "(\<forall>c. toIValue g out = Some c \<longrightarrow>
            (\<exists>xs. c = IIntList xs \<and> extractOutputShape a h = Inr (Some (map Some xs))))
       \<and> (\<forall>lc. producer g out = Some lc \<and> n_kind lc = prim_ListConstruct
                \<and> length (uses g out) = 1 \<longrightarrow>
            extractOutputShape a h = Inr (Some (map (elem_dim g) (n_inputs lc))))
       \<and> (toIValue g out = None
            \<and> (value_kind g out \<noteq> prim_ListConstruct \<or> length (uses g out) \<noteq> 1) \<longrightarrow>
            extractOutputShape a h = Inr None)"
proof (intro conjI allI impI)
  fix c assume c: "toIValue g out = Some c"
  with wt ty have "type_of_ivalue c = ListType IntType" by auto
  then obtain xs where xs: "c = IIntList xs" by (auto dest: type_of_ivalue_int_list)
  have "extractOutputShape a h = Inr (Some (map Some xs))"
    using hp out ty c xs
    by (simp add: extractOutputShape_def toIValue_kind)
  with xs show "\<exists>xs. c = IIntList xs \<and> extractOutputShape a h = Inr (Some (map Some xs))"
    by blast
next
  fix lc
  assume a: "producer g out = Some lc \<and> n_kind lc = prim_ListConstruct \<and> length (uses g out) = 1"
  then have k: "value_kind g out = prim_ListConstruct"
    by (simp add: value_kind_producer)
  have "\<forall>v \<in> set (n_inputs lc). \<forall>c. toIValue g v = Some c \<longrightarrow> (\<exists>k. c = IInt k)"
  proof (intro ballI allI impI)
    fix v c assume v: "v \<in> set (n_inputs lc)" and c: "toIValue g v = Some c"
    from lc a v have "g_type g v = IntType" by blast
    with wt c have "type_of_ivalue c = IntType" by auto
    then show "\<exists>k. c = IInt k" by (rule type_of_ivalue_int)
  qed
  then have "mapE (constant_as_int g) (n_inputs lc) = Inr (map (elem_dim g) (n_inputs lc))"
    by (rule mapE_constant_as_int)
  then show "extractOutputShape a h = Inr (Some (map (elem_dim g) (n_inputs lc)))"
    using hp out ty a k by (simp add: extractOutputShape_def)
next
  assume a: "toIValue g out = None
      \<and> (value_kind g out \<noteq> prim_ListConstruct \<or> length (uses g out) \<noteq> 1)"
  then show "extractOutputShape a h = Inr None"
    using hp out ty
    by (auto simp: extractOutputShape_def toIValue_def split: node_kind.splits)
qed

text \<open>
  C5. Registration is first-write-wins: a node without a schema, or with a signature that
  is already in the registry, leaves the state as it is and raises no error; the first
  registration of a signature stores the program, and from then on a second registration
  under that signature changes nothing and propagation at a node of that signature runs
  the first program.
\<close>

theorem register_first_write_wins:
  assumes n: "node_at (w_heap w) n = Inr nd"
  shows "(n_schema nd = None \<longrightarrow> RegisterOperatorShapeFunction w n gp = Inr w)
       \<and> (\<forall>sig. n_schema nd = Some sig \<and> operator_functions w sig \<noteq> None \<longrightarrow>
            RegisterOperatorShapeFunction w n gp = Inr w)
       \<and> (\<forall>sig. n_schema nd = Some sig \<and> operator_functions w sig = None \<longrightarrow>
            (\<exists>w1. RegisterOperatorShapeFunction w n gp = Inr w1
                 \<and> operator_functions w1 = (operator_functions w)(sig \<mapsto> gp)
                 \<and> w_heap w1 = w_heap w
                 \<and> (\<forall>n2 nd2 gp2. node_at (w_heap w1) n2 = Inr nd2 \<and> n_schema nd2 = Some sig \<longrightarrow>
                      RegisterOperatorShapeFunction w1 n2 gp2 = Inr w1)
                 \<and> (\<forall>ps h tp i nd3. node_at h (tp, i) = Inr nd3 \<and> n_schema nd3 = Some sig \<longrightarrow>
                      propagate_node ps (operator_functions w1) tp h i =
                      PropagateShapesWithShapeFunction ps h (tp, i) gp)))"
  using n
  by (auto simp: RegisterOperatorShapeFunction_def propagate_node_def)

subsection \<open>Frame and repeatability of the analysis\<close>

lemma lookup_append_None: "lookup (h @ [None]) q = lookup h q"
  by (auto simp: lookup_def nth_append)

lemma graph_at_append_None: "graph_at (h @ [None]) q = graph_at h q"
  by (simp add: graph_at_def lookup_append_None)

lemma node_at_append_None: "node_at (h @ [None]) n = node_at h n"
  by (simp add: node_at_def graph_at_append_None)

text \<open>
  C9. The analyzer works on a private copy made before any specialization: the constructor
  allocates a new cell for the copy and leaves every cell that existed before as it was;
  so does \<open>run\<close>; and when the analysis has completed, the store is the store from before
  plus the released cell of the copy, so the registered program, the graph of the analyzed
  node and the node itself are unchanged. The registry is not an argument of the analysis.
\<close>

theorem analysis_mutates_only_private_copy:
  assumes n: "node_at h n = Inr nd"
  shows "(\<forall>h1 a. SymbolicShapeAnalyzer_init h n sp = Inr (h1, a) \<longrightarrow>
            graph_ptr a = length h \<and> node_ptr a = n
            \<and> length h1 = Suc (length h) \<and> take (length h) h1 = h)
       \<and> (\<forall>h1 a out h2. SymbolicShapeAnalyzer_init h n sp = Inr (h1, a)
              \<and> run ps a h1 = Inr (out, h2) \<longrightarrow>
            length h2 = Suc (length h) \<and> take (length h) h2 = h)
       \<and> (\<forall>out h3. analyze ps h n sp = Inr (out, h3) \<longrightarrow>
            h3 = h @ [None] \<and> (\<forall>q. lookup h3 q = lookup h q) \<and> node_at h3 n = Inr nd)"
proof -
  from n obtain tg where rd: "reads h n tg nd"
    by (auto simp: reads_iff_node_at)
  then have nl: "fst n < length h"
    by (simp add: reads_def graph_at_Inr_iff)
  show ?thesis
  proof (cases "graph_at h sp")
    case (Inl e)
    then show ?thesis
      by (simp add: SymbolicShapeAnalyzer_init_def analyze_def)
  next
    case (Inr g0)
    note init = init_lift [OF Inr rd]
    have 1: "graph_ptr a = length h \<and> node_ptr a = n
        \<and> length h1 = Suc (length h) \<and> take (length h) h1 = h
        \<and> (\<exists>g1. graph_at h1 (graph_ptr a) = Inr g1) \<and> reads h1 (node_ptr a) tg nd"
      if "SymbolicShapeAnalyzer_init h n sp = Inr (h1, a)" for h1 a
      using that init reads_append [OF rd]
      by (auto simp: graph_at_append split: sum.splits)
    have 2: "length h2 = Suc (length h) \<and> take (length h) h2 = h"
      if i: "SymbolicShapeAnalyzer_init h n sp = Inr (h1, a)" and r: "run ps a h1 = Inr (out, h2)"
      for h1 a out h2
    proof -
      from 1 [OF i] obtain g1 where a: "graph_ptr a = length h" "node_ptr a = n"
        and h1: "length h1 = Suc (length h)" "take (length h) h1 = h"
        and g1: "graph_at h1 (graph_ptr a) = Inr g1" and rd1: "reads h1 (node_ptr a) tg nd"
        by blast
      have "fst (node_ptr a) \<noteq> graph_ptr a"
        using a nl by simp
      from run_lift [OF g1 rd1 this, of ps] r
      obtain g2 where "h2 = h1[graph_ptr a := Some g2]"
        by (auto split: sum.splits)
      then show ?thesis
        using a h1 by simp
    qed
    have 3: "h3 = h @ [None] \<and> (\<forall>q. lookup h3 q = lookup h q) \<and> node_at h3 n = Inr nd"
      if "analyze ps h n sp = Inr (out, h3)" for out h3
      using that analyze_lift [OF Inr rd, of ps] n
      by (auto simp: lookup_append_None node_at_append_None split: sum.splits)
    from 1 2 3 show ?thesis by blast
  qed
qed

text \<open>
  C8. Running the analysis a second time, in the state the first run has left, on the same
  node and the same registered program gives the same symbolic shape.
\<close>

theorem analysis_repeatable:
  assumes n: "node_at h n = Inr nd"
    and first: "analyze ps h n sp = Inr (out, h1)"
  shows "analyze ps h1 n sp = Inr (out, h1 @ [None])"
proof -
  from n obtain tg where rd: "reads h n tg nd"
    by (auto simp: reads_iff_node_at)
  from first obtain g0 where sp: "graph_at h sp = Inr g0"
    by (cases "graph_at h sp") (auto simp: analyze_def SymbolicShapeAnalyzer_init_def)
  from first analyze_lift [OF sp rd, of ps]
  have res: "analyzeG ps (op_inputs tg nd) g0 = Inr out" and h1: "h1 = h @ [None]"
    by (auto split: sum.splits)
  have sp1: "graph_at h1 sp = Inr g0"
    using sp h1 by (simp add: graph_at_append_None)
  have rd1: "reads h1 n tg nd"
    using rd h1 by (simp add: reads_append)
  show ?thesis
    using analyze_lift [OF sp1 rd1, of ps] res by simp
qed

text \<open>
  C10. Writing the derived shape onto the node needs a node with exactly one output, of
  tensor type: then the output's type is overwritten; with another number of outputs, or a
  single output that is not a tensor, the call fails although the analysis has succeeded.
\<close>

theorem propagate_needs_single_tensor_output:
  assumes n: "node_at h n = Inr nd"
    and tg: "graph_at h (fst n) = Inr tg"
    and an: "analyze ps h n sp = Inr (out, h1)"
  shows "(\<forall>ov tt. n_outputs nd = [ov] \<and> g_type tg ov = TensorType tt \<longrightarrow>
            PropagateShapesWithShapeFunction ps h n sp =
              Inr (h1[fst n := Some (tg\<lparr>g_type := (g_type tg)
                     (ov := TensorType (withSymbolicShapes tt out))\<rparr>)]))
       \<and> (length (n_outputs nd) \<noteq> 1 \<longrightarrow>
            PropagateShapesWithShapeFunction ps h n sp = Inl IRAssert)
       \<and> (\<forall>ov. n_outputs nd = [ov] \<and> castTensorType (g_type tg ov) = None \<longrightarrow>
            PropagateShapesWithShapeFunction ps h n sp = Inl IRAssert)"
proof -
  have rd: "reads h n tg nd"
    using n tg by (auto simp: node_at_Inr_iff reads_def)
  from an obtain g0 where sp: "graph_at h sp = Inr g0"
    by (cases "graph_at h sp") (auto simp: analyze_def SymbolicShapeAnalyzer_init_def)
  from an analyze_lift [OF sp rd, of ps] have h1: "h1 = h @ [None]"
    by (auto split: sum.splits)
  have n1: "node_at h1 n = Inr nd"
    using n h1 by (simp add: node_at_append_None)
  have tg1: "graph_at h1 (fst n) = Inr tg"
    using tg h1 by (simp add: graph_at_append_None)
  have a: "PropagateShapesWithShapeFunction ps h n sp =
      bindE (node_output nd) (\<lambda>ov.
        case castTensorType (g_type tg ov) of
          None \<Rightarrow> Inl IRAssert
        | Some tt \<Rightarrow> setType h1 (fst n, ov) (TensorType (withSymbolicShapes tt out)))"
    by (simp add: PropagateShapesWithShapeFunction_def an n1 value_type_def tg1)
  have b: "length (n_outputs nd) \<noteq> 1 \<Longrightarrow> node_output nd = Inl IRAssert"
    by (cases "n_outputs nd"; cases "tl (n_outputs nd)") (auto simp: node_output_def)
  show ?thesis
    using b by (auto simp: a setType_def tg1)
qed

subsection \<open>Input specialization and graph-wide propagation\<close>


lemma withSymbolicShapes_twice [simp]:
  "withSymbolicShapes (withSymbolicShapes tt s) s1 = withSymbolicShapes tt s1"
  by (simp add: withSymbolicShapes_def)

lemma shapes_refined_refl: "shapes_refined S g g"
  by (simp add: shapes_refined_def)

lemma shapes_refined_step:
  assumes r: "shapes_refined S g0 g"
    and ov: "ov \<in> S"
    and tt: "g_type g ov = TensorType tt"
  shows "shapes_refined S g0 (g\<lparr>g_type := (g_type g)(ov := TensorType (withSymbolicShapes tt out))\<rparr>)"
proof -
  from r have "g_type g ov = g_type g0 ov
      \<or> (\<exists>tt0 s. g_type g0 ov = TensorType tt0 \<and> g_type g ov = TensorType (withSymbolicShapes tt0 s))"
    unfolding shapes_refined_def by metis
  then have "\<exists>tt0. g_type g0 ov = TensorType tt0
      \<and> withSymbolicShapes tt out = withSymbolicShapes tt0 out"
  proof
    assume "g_type g ov = g_type g0 ov"
    then have "g_type g0 ov = TensorType tt" using tt by simp
    then show ?thesis by blast
  next
    assume "\<exists>tt0 s. g_type g0 ov = TensorType tt0
        \<and> g_type g ov = TensorType (withSymbolicShapes tt0 s)"
    then show ?thesis using tt by auto
  qed
  then show ?thesis
    using r ov unfolding shapes_refined_def by auto
qed

lemma PropagateShapesWithShapeFunction_effect:
  assumes tg: "graph_at h (fst n) = Inr tg"
    and nd: "map_of (g_nodes tg) (snd n) = Some nd"
    and ok: "PropagateShapesWithShapeFunction ps h n sp = Inr h1"
  shows "\<exists>out ov tt. analyze ps h n sp = Inr (out, h @ [None]) \<and> n_outputs nd = [ov]
           \<and> g_type tg ov = TensorType tt
           \<and> h1 = (h @ [None])[fst n := Some (tg\<lparr>g_type := (g_type tg)
                     (ov := TensorType (withSymbolicShapes tt out))\<rparr>)]"
proof -
  have rd: "reads h n tg nd"
    using tg nd by (simp add: reads_def)
  from ok obtain out h0 where an: "analyze ps h n sp = Inr (out, h0)"
    by (cases "analyze ps h n sp") (auto simp: PropagateShapesWithShapeFunction_def)
  then obtain g0 where sp: "graph_at h sp = Inr g0"
    by (cases "graph_at h sp") (auto simp: analyze_def SymbolicShapeAnalyzer_init_def)
  from an analyze_lift [OF sp rd, of ps] have h0: "h0 = h @ [None]"
    by (auto split: sum.splits)
  have n0: "node_at h0 n = Inr nd"
    using rd h0 by (simp add: node_at_append_None reads_iff_node_at) blast
  have tg0: "graph_at h0 (fst n) = Inr tg"
    using tg h0 by (simp add: graph_at_append_None)
  from ok have "bindE (node_output nd) (\<lambda>ov.
        case castTensorType (g_type tg ov) of
          None \<Rightarrow> Inl IRAssert
        | Some tt \<Rightarrow> setType h0 (fst n, ov) (TensorType (withSymbolicShapes tt out))) = Inr h1"
    by (simp add: PropagateShapesWithShapeFunction_def an n0 value_type_def tg0)
  then obtain ov tt where "n_outputs nd = [ov]" "castTensorType (g_type tg ov) = Some tt"
    "setType h0 (fst n, ov) (TensorType (withSymbolicShapes tt out)) = Inr h1"
    by (auto simp: node_output_def bindE_def split: list.splits option.splits sum.splits)
  moreover from this have "g_type tg ov = TensorType tt"
    by (cases "g_type tg ov") simp_all
  ultimately show ?thesis
    using an h0 tg0 by (auto simp: setType_def)
qed

lemma propagate_node_unregistered:
  assumes "graph_at h gp = Inr tg" "map_of (g_nodes tg) i = Some nd"
    and "n_schema nd = None \<or> (\<exists>sig. n_schema nd = Some sig \<and> registry sig = None)"
  shows "propagate_node ps registry gp h i = Inr h"
  using assms by (auto simp: propagate_node_def node_at_def)

lemma propagate_node_registered:
  assumes tg: "graph_at h gp = Inr tg" and nd: "map_of (g_nodes tg) i = Some nd"
    and sig: "n_schema nd = Some sig" "registry sig = Some sp"
    and ok: "propagate_node ps registry gp h i = Inr h1"
  shows "\<exists>out ov tt. analyze ps h (gp, i) sp = Inr (out, h @ [None]) \<and> n_outputs nd = [ov]
           \<and> g_type tg ov = TensorType tt
           \<and> h1 = (h @ [None])[gp := Some (tg\<lparr>g_type := (g_type tg)
                     (ov := TensorType (withSymbolicShapes tt out))\<rparr>)]"
proof -
  have "PropagateShapesWithShapeFunction ps h (gp, i) sp = Inr h1"
    using ok tg nd sig by (simp add: propagate_node_def node_at_def)
  from PropagateShapesWithShapeFunction_effect [OF _ _ this] tg nd
  show ?thesis by simp
qed

lemma propagate_loop:
  assumes "for_each ids (propagate_node ps registry gp) h = Inr h1"
    and "graph_at h gp = Inr g"
    and "shapes_refined (registered_outputs registry g0) g0 g"
    and "set ids \<subseteq> fst ` set (graph_nodes g0)"
    and "distinct (map fst (g_nodes g0))"
  shows "\<exists>g1. graph_at h1 gp = Inr g1 \<and> shapes_refined (registered_outputs registry g0) g0 g1
            \<and> length h \<le> length h1
            \<and> (\<forall>q. q \<noteq> gp \<and> q < length h \<longrightarrow> lookup h1 q = lookup h q)"
  using assms
proof (induction ids arbitrary: h g)
  case Nil
  then show ?case by auto
next
  case (Cons i ids)
  let ?S = "registered_outputs registry g0"
  from Cons.prems(1) obtain hm where step: "propagate_node ps registry gp h i = Inr hm"
    and rest: "for_each ids (propagate_node ps registry gp) hm = Inr h1"
    by (auto split: sum.splits)
  from step Cons.prems(2) obtain nd where nd: "map_of (g_nodes g) i = Some nd"
    by (auto simp: propagate_node_def node_at_def split: option.splits)
  have gp: "gp < length h"
    using Cons.prems(2) by (simp add: graph_at_Inr_iff)
  have "\<exists>gm. graph_at hm gp = Inr gm \<and> shapes_refined ?S g0 gm \<and> length h \<le> length hm
      \<and> (\<forall>q. q \<noteq> gp \<and> q < length h \<longrightarrow> lookup hm q = lookup h q)"
  proof (cases "\<exists>sig sp. n_schema nd = Some sig \<and> registry sig = Some sp")
    case False
    then have "n_schema nd = None \<or> (\<exists>sig. n_schema nd = Some sig \<and> registry sig = None)"
      by (cases "n_schema nd") auto
    from propagate_node_unregistered [OF Cons.prems(2) nd this, of ps] step
    have "hm = h" by simp
    then show ?thesis using Cons.prems by auto
  next
    case True
    then obtain sig sp where sig: "n_schema nd = Some sig" "registry sig = Some sp"
      by blast
    from propagate_node_registered [OF Cons.prems(2) nd sig step]
    obtain out ov tt where ov: "n_outputs nd = [ov]" and tt: "g_type g ov = TensorType tt"
      and hm: "hm = (h @ [None])[gp := Some (g\<lparr>g_type := (g_type g)
                     (ov := TensorType (withSymbolicShapes tt out))\<rparr>)]"
      by blast
    have in0: "(i, nd) \<in> set (g_nodes g0)"
      using nd Cons.prems(3) by (auto simp: shapes_refined_def dest: map_of_SomeD)
    from Cons.prems(4) obtain nd' where "(i, nd') \<in> set (g_nodes g0)" "n_block nd' = 0"
      by (auto simp: graph_nodes_def)
    with in0 Cons.prems(5) have "n_block nd = 0"
      by (auto dest: eq_key_imp_eq_value)
    with in0 have "ov \<in> ?S"
      using sig ov unfolding registered_outputs_def by force
    from shapes_refined_step [OF Cons.prems(3) this tt, of out]
    show ?thesis
      using hm gp by (auto simp: graph_at_Inr_iff nth_list_update lookup_def nth_append)
  qed
  then obtain gm where gm: "graph_at hm gp = Inr gm" "shapes_refined ?S g0 gm"
    and len: "length h \<le> length hm"
    and fr: "\<forall>q. q \<noteq> gp \<and> q < length h \<longrightarrow> lookup hm q = lookup h q"
    by blast
  have "set ids \<subseteq> fst ` set (graph_nodes g0)"
    using Cons.prems(4) by simp
  from Cons.IH [OF rest gm this Cons.prems(5)] obtain g1 where "graph_at h1 gp = Inr g1"
    "shapes_refined ?S g0 g1" "length hm \<le> length h1"
    "\<forall>q. q \<noteq> gp \<and> q < length hm \<longrightarrow> lookup h1 q = lookup hm q"
    by blast
  then show ?case
    using len fr by (intro exI [of _ g1]) auto
qed

text \<open>
  Over the whole constructor: the tracked positions are exactly the tensor inputs of known
  rank and not fully known shape, in the order of the inputs.
\<close>

lemma specialize_inputG_tracked:
  assumes "specialize_inputG ins (g, tracked) i = Inr (g1, t1)"
  shows "t1 = tracked @ filter (\<lambda>j. is_tracked (fst (ins ! j))) [i]"
  using assms
  by (auto simp: specialize_inputG_def is_tracked_def bindE_def at_def
      split: sum.splits option.splits if_splits)

lemma specialize_loop_tracked:
  assumes "for_each xs (specialize_inputG ins) (g, tracked) = Inr (g1, t1)"
  shows "t1 = tracked @ filter (\<lambda>j. is_tracked (fst (ins ! j))) xs"
  using assms
proof (induction xs arbitrary: g tracked)
  case Nil
  then show ?case by simp
next
  case (Cons x xs)
  from Cons.prems obtain gm tm where step: "specialize_inputG ins (g, tracked) x = Inr (gm, tm)"
    and rest: "for_each xs (specialize_inputG ins) (gm, tm) = Inr (g1, t1)"
    by (auto split: sum.splits)
  from specialize_inputG_tracked [OF step] Cons.IH [OF rest] show ?case
    by simp
qed

lemma init_tracked_indices:
  assumes nd: "node_at h n = Inr nd" and tg: "graph_at h (fst n) = Inr tg"
    and ok: "SymbolicShapeAnalyzer_init h n sp = Inr (h1, a)"
  shows "node_input_tensor_indices a =
         filter (\<lambda>i. is_tracked (g_type tg (n_inputs nd ! i))) [0..<length (n_inputs nd)]"
proof -
  have rd: "reads h n tg nd"
    using nd tg by (auto simp: node_at_Inr_iff reads_def)
  from ok obtain g0 where sp: "graph_at h sp = Inr g0"
    by (cases "graph_at h sp") (auto simp: SymbolicShapeAnalyzer_init_def)
  from ok init_lift [OF sp rd] obtain s where s: "specializeG (op_inputs tg nd) g0 = Inr s"
    and a: "node_input_tensor_indices a = snd s"
    by (auto split: sum.splits)
  from s have "for_each [0..<length (n_inputs nd)] (specialize_inputG (op_inputs tg nd))
      (copy g0, []) = Inr (fst s, snd s)"
    by (simp add: specializeG_def op_inputs_def)
  from specialize_loop_tracked [OF this] a
  have "node_input_tensor_indices a =
      filter (\<lambda>i. is_tracked (fst (op_inputs tg nd ! i))) [0..<length (n_inputs nd)]"
    by simp
  also have "\<dots> = filter (\<lambda>i. is_tracked (g_type tg (n_inputs nd ! i))) [0..<length (n_inputs nd)]"
    by (rule filter_cong) (simp_all add: op_inputs_def)
  finally show ?thesis .
qed

subsection \<open>Well-formedness is kept, and keeps the analysis from aborting\<close>

lemma set_insert_at_block_start [simp]:
  "set (insert_at_block_start b x ys) = insert x (set ys)"
  by (induction ys) auto



lemma concat_map_insert_at_block_start:
  "f x = [] \<Longrightarrow> concat (map f (insert_at_block_start b x ys)) = concat (map f ys)"
  by (induction ys) auto

lemma find_insert_at_block_start_new:
  "P x \<Longrightarrow> \<forall>y \<in> set ys. \<not> P y \<Longrightarrow> find P (insert_at_block_start b x ys) = Some x"
  by (induction ys) auto

lemma map_insert_at_block_start:
  assumes "\<And>y. n_block (snd (f y)) = n_block (snd y)"
  shows "map f (insert_at_block_start b x ys) = insert_at_block_start b (f x) (map f ys)"
  using assms by (induction ys) auto

lemma replaceG_simps:
  "g_inputs (replaceG g v val) = g_inputs g"
  "g_outputs (replaceG g v val) = rename v (g_next g) (g_outputs g)"
  "g_next (replaceG g v val) = Suc (g_next g)"
  "g_type (replaceG g v val) = (g_type g)(g_next g := type_of_ivalue val)"
  "g_nodes (replaceG g v val) =
     insert_at_block_start (owning_block g v) (g_next g, \<lparr>n_kind = prim_Constant val, n_inputs = [], n_outputs = [g_next g], n_schema = None, n_block = owning_block g v\<rparr>)
       (map (\<lambda>(i, n). (i, n\<lparr>n_inputs := rename v (g_next g) (n_inputs n)\<rparr>)) (g_nodes g))"
proof -
  let ?ren = "\<lambda>(i, n). (i, n\<lparr>n_inputs := rename v (g_next g) (n_inputs n)\<rparr>)"
  have "map ?ren (insert_at_block_start b x ys) = insert_at_block_start b (?ren x) (map ?ren ys)"
    for b x ys
    by (rule map_insert_at_block_start) (simp add: case_prod_unfold)
  then show "g_nodes (replaceG g v val) =
     insert_at_block_start (owning_block g v) (g_next g, \<lparr>n_kind = prim_Constant val, n_inputs = [], n_outputs = [g_next g], n_schema = None, n_block = owning_block g v\<rparr>)
       (map ?ren (g_nodes g))"
    by (simp add: replaceG_def insertConstant_def replaceAllUsesWith_def Let_def rename_def)
qed (simp_all add: replaceG_def insertConstant_def replaceAllUsesWith_def Let_def)

lemma replaceG_nodes_set:
  "set (g_nodes (replaceG g v val)) =
     insert (g_next g, \<lparr>n_kind = prim_Constant val, n_inputs = [], n_outputs = [g_next g], n_schema = None, n_block = owning_block g v\<rparr>)
       ((\<lambda>(i, n). (i, n\<lparr>n_inputs := rename v (g_next g) (n_inputs n)\<rparr>)) ` set (g_nodes g))"
  by (simp add: replaceG_simps(5))




lemma in_graph_values:
  "x \<in> set (g_inputs g) \<Longrightarrow> x \<in> graph_values g"
  "x \<in> set (g_outputs g) \<Longrightarrow> x \<in> graph_values g"
  "(i, n) \<in> set (g_nodes g) \<Longrightarrow> x \<in> set (n_inputs n) \<Longrightarrow> x \<in> graph_values g"
  "(i, n) \<in> set (g_nodes g) \<Longrightarrow> x \<in> set (n_outputs n) \<Longrightarrow> x \<in> graph_values g"
  by (force simp: graph_values_def)+




text \<open>
  What a replacement does to the graph: the fresh value is the constant, the replaced value
  has no use left, the uses of the replaced value are now the uses of the constant, and
  every other value is as it was.
\<close>

lemma offsets_of_rename_old:
  "v \<noteq> c \<Longrightarrow> offsets_of v (rename v c xs) = []"
  by (auto simp: offsets_of_def rename_def filter_empty_conv)

lemma toIValue_replaceG:
  assumes fresh: "\<forall>x. x \<in> graph_values g \<longrightarrow> x < g_next g"
  shows "toIValue (replaceG g v val) (g_next g) = Some val"
proof -
  let ?P = "\<lambda>(i, n). g_next g \<in> set (n_outputs n)"
  have "\<forall>y \<in> set (map (\<lambda>(i, n). (i, n\<lparr>n_inputs := rename v (g_next g) (n_inputs n)\<rparr>))
      (g_nodes g)). \<not> ?P y"
  proof
    fix y assume "y \<in> set (map (\<lambda>(i, n). (i, n\<lparr>n_inputs := rename v (g_next g) (n_inputs n)\<rparr>))
      (g_nodes g))"
    then obtain i n where n: "(i, n) \<in> set (g_nodes g)"
      and y: "y = (i, n\<lparr>n_inputs := rename v (g_next g) (n_inputs n)\<rparr>)"
      by auto
    have "g_next g \<notin> set (n_outputs n)"
      using fresh in_graph_values(4) [OF n] by blast
    then show "\<not> ?P y" by (simp add: y)
  qed
  then have "find ?P (g_nodes (replaceG g v val)) =
      Some (g_next g, \<lparr>n_kind = prim_Constant val, n_inputs = [], n_outputs = [g_next g], n_schema = None, n_block = owning_block g v\<rparr>)"
    unfolding replaceG_simps(5) by (intro find_insert_at_block_start_new) simp_all
  then show ?thesis
    by (simp add: toIValue_def value_kind_def producer_def)
qed

lemma uses_replaceG_old:
  assumes "v \<noteq> g_next g"
  shows "uses (replaceG g v val) v = []"
proof -
  have "offsets_of v (rename v (g_next g) xs) = []" for xs
    using assms by (rule offsets_of_rename_old)
  then have "concat (map (\<lambda>(i, n). map (\<lambda>off. (UNode i, off)) (offsets_of v (n_inputs n)))
      (g_nodes (replaceG g v val))) = []"
    by (auto simp: replaceG_nodes_set offsets_of_def)
  then show ?thesis
    using \<open>\<And>xs. offsets_of v (rename v (g_next g) xs) = []\<close>
    by (simp add: uses_def replaceG_simps(2))
qed

lemma offsets_of_rename_fresh:
  "c \<notin> set xs \<Longrightarrow> offsets_of c (rename v c xs) = offsets_of v xs"
  unfolding offsets_of_def rename_def
  by (rule filter_cong) (auto simp: nth_mem)

lemma offsets_of_rename_other:
  "w \<noteq> v \<Longrightarrow> w \<noteq> c \<Longrightarrow> offsets_of w (rename v c xs) = offsets_of w xs"
  unfolding offsets_of_def rename_def
  by (rule filter_cong) auto

lemma find_insert_at_block_start_old:
  "\<not> P x \<Longrightarrow> find P (insert_at_block_start b x ys) = find P ys"
  by (induction ys) auto

lemma find_map_node:
  "(\<And>y. P (f y) = P y) \<Longrightarrow> find P (map f ys) = map_option f (find P ys)"
  by (induction ys) auto

lemma value_kind_replaceG:
  assumes "w \<noteq> g_next g"
  shows "value_kind (replaceG g v val) w = value_kind g w"
proof -
  let ?P = "\<lambda>(i, n). w \<in> set (n_outputs n)"
  let ?ren = "\<lambda>(i, n). (i, n\<lparr>n_inputs := rename v (g_next g) (n_inputs n)\<rparr>)"
  have "find ?P (g_nodes (replaceG g v val)) = find ?P (map ?ren (g_nodes g))"
    unfolding replaceG_simps(5) using assms
    by (intro find_insert_at_block_start_old) simp
  also have "\<dots> = map_option ?ren (find ?P (g_nodes g))"
    by (rule find_map_node) (simp add: case_prod_unfold)
  finally show ?thesis
    by (cases "find ?P (g_nodes g)") (auto simp: value_kind_def producer_def)
qed

lemma uses_replaceG_fresh:
  assumes fresh: "\<forall>x. x \<in> graph_values g \<longrightarrow> x < g_next g"
  shows "uses (replaceG g v val) (g_next g) = uses g v"
proof -
  let ?c = "g_next g"
  let ?F = "\<lambda>w. \<lambda>(i, n). map (\<lambda>off. (UNode i, off)) (offsets_of w (n_inputs n))"
  let ?ren = "\<lambda>(i, n). (i, n\<lparr>n_inputs := rename v ?c (n_inputs n)\<rparr>)"
  have out: "?c \<notin> set (g_outputs g)"
    using fresh in_graph_values(2) by blast
  have "concat (map (?F ?c) (g_nodes (replaceG g v val))) = concat (map (?F ?c) (map ?ren (g_nodes g)))"
    unfolding replaceG_simps(5)
    by (rule concat_map_insert_at_block_start) (simp add: offsets_of_def)
  also have "map (?F ?c) (map ?ren (g_nodes g)) = map (?F v) (g_nodes g)"
  proof (simp, intro ballI)
    fix y assume y: "y \<in> set (g_nodes g)"
    obtain i n where yn: "y = (i, n)" by (cases y)
    have "?c \<notin> set (n_inputs n)"
      using fresh in_graph_values(3) y yn by blast
    then show "?F ?c (?ren y) = ?F v y"
      by (simp add: yn offsets_of_rename_fresh)
  qed
  finally show ?thesis
    using out by (simp add: uses_def replaceG_simps(2) offsets_of_rename_fresh)
qed

lemma uses_replaceG_other:
  assumes "w \<noteq> g_next g" "w \<noteq> v"
  shows "uses (replaceG g v val) w = uses g w"
proof -
  let ?c = "g_next g"
  let ?F = "\<lambda>(i, n). map (\<lambda>off. (UNode i, off)) (offsets_of w (n_inputs n))"
  let ?ren = "\<lambda>(i, n). (i, n\<lparr>n_inputs := rename v ?c (n_inputs n)\<rparr>)"
  have "concat (map ?F (g_nodes (replaceG g v val))) = concat (map ?F (map ?ren (g_nodes g)))"
    unfolding replaceG_simps(5)
    by (rule concat_map_insert_at_block_start) (simp add: offsets_of_def)
  also have "map ?F (map ?ren (g_nodes g)) = map ?F (g_nodes g)"
    using assms by (simp add: case_prod_unfold offsets_of_rename_other)
  finally show ?thesis
    using assms by (simp add: uses_def replaceG_simps(2) offsets_of_rename_other)
qed

lemma replaceG_replaced:
  assumes "v \<noteq> g_next g" and "\<forall>x. x \<in> graph_values g \<longrightarrow> x < g_next g"
  shows "replaced_by_constant g v val (replaceG g v val)"
  unfolding replaced_by_constant_def
  using assms
  by (simp add: toIValue_replaceG uses_replaceG_fresh uses_replaceG_old uses_replaceG_other
      value_kind_replaceG replaceG_simps(1,4))

lemma replaceWithIValue_replaces:
  assumes "graph_at h p = Inr g" and "v \<noteq> g_next g"
    and "\<forall>x. x \<in> graph_values g \<longrightarrow> x < g_next g"
  shows "\<exists>g1. replaceWithIValue h (p, v) val = Inr (h[p := Some g1])
           \<and> replaced_by_constant g v val g1"
  using replaceWithIValue_lift [OF assms(1), of v val] replaceG_replaced [OF assms(2,3), of val]
  by blast




















subsection \<open>The assertions of the file\<close>























lemma run_simplify:
  "run ps a h = bindE (simplify ps a h) (\<lambda>h3. bindE (extractOutputShape a h3) (\<lambda>out. Inr (out, h3)))"
  by (simp add: run_def simplify_def bindE_def split: sum.splits)




subsection \<open>Property substitution\<close>

lemma user_node_in_graph:
  assumes "graph_at h p = Inr g" "user_node h p u = Inr usr" "n_kind usr \<noteq> prim_Return"
  shows "\<exists>i. (i, usr) \<in> set (g_nodes g)"
proof (cases u)
  case (UNode i)
  with assms have "map_of (g_nodes g) i = Some usr"
    by (auto simp: user_node_def node_at_def split: option.splits)
  then show ?thesis by (blast dest: map_of_SomeD)
next
  case UReturn
  with assms show ?thesis
    by (auto simp: user_node_def return_node_def)
qed

text \<open>
  C1. For a tracked tensor input \<open>i\<close> of known rank \<open>r = length dims\<close>,
  \<open>substituteTensorProperties\<close> runs \<open>substitute_use\<close> over the users of program input
  \<open>i\<close>, and at each user the step does what the specification's rule says. When the rule
  gives a constant (the rank \<open>r\<close> for a length query; for an indexing query with a known
  index, the static size of the normalised dimension when the index is in range and the
  size is known), the step returns the store with the analyzer's graph rewritten, and in
  the rewritten graph the result of the user is replaced by that constant: the constant
  exists under a fresh name, has taken over every use of the result, and nothing else is
  changed. In every other case (index out of range, index not constant, dimension unknown,
  any other kind of user) the store is returned unchanged, and no error is raised. The
  rank is below \<open>2^63\<close> and the index an \<open>int64_t\<close>, so the wrap-around of
  \<open>normIndex\<close> does not show; the names of the graph are below its counter of fresh
  names.
\<close>

theorem substituteTensorProperties_rewrites_uses:
  assumes hp: "graph_at h p = Inr g"
    and a: "graph_ptr a = p"
    and tv: "node_input h (node_ptr a) i = Inr tv"
    and ty: "value_type h tv = Inr (TensorType tt)"
    and dims: "symbolic_sizes tt = Some dims"
    and r: "int (length dims) < 2 ^ 63"
    and i: "i < length (g_inputs g)"
    and fresh: "\<forall>x. x \<in> graph_values g \<longrightarrow> x < g_next g"
    and u: "user_node h p u = Inr usr"
    and out: "n_kind usr = aten_len \<or> n_kind usr = aten_getitem \<Longrightarrow> n_outputs usr = [out]"
    and ins: "n_kind usr = aten_getitem \<Longrightarrow> length (n_inputs usr) = 2"
    and idx: "\<forall>c. n_kind usr = aten_getitem \<and> toIValue g (n_inputs usr ! 1) = Some c \<longrightarrow>
                (\<exists>k. c = IInt k \<and> - (2 ^ 63) \<le> k \<and> k < 2 ^ 63)"
  shows "substituteTensorProperties a h i =
           for_each (map fst (uses g (g_inputs g ! i))) (substitute_use p dims) h
       \<and> (case spec_substitution dims (n_kind usr) (static_index g usr) of
              None \<Rightarrow> substitute_use p dims h u = Inr h
            | Some c \<Rightarrow>
                (\<exists>g1. substitute_use p dims h u = Inr (h[p := Some g1])
                      \<and> replaced_by_constant g out (IInt c) g1))"
proof
  show "substituteTensorProperties a h i =
          for_each (map fst (uses g (g_inputs g ! i))) (substitute_use p dims) h"
    using hp a tv ty dims i
    by (simp add: substituteTensorProperties_def graph_input_def)
next
  note rule = substitute_use_rule [OF hp r u out ins idx]
  show "case spec_substitution dims (n_kind usr) (static_index g usr) of
              None \<Rightarrow> substitute_use p dims h u = Inr h
            | Some c \<Rightarrow>
                (\<exists>g1. substitute_use p dims h u = Inr (h[p := Some g1])
                      \<and> replaced_by_constant g out (IInt c) g1)"
  proof (cases "spec_substitution dims (n_kind usr) (static_index g usr)")
    case None
    then show ?thesis using rule by simp
  next
    case (Some c)
    then have k: "n_kind usr = aten_len \<or> n_kind usr = aten_getitem"
      by (rule spec_substitution_kind)
    then have o: "n_outputs usr = [out]" by (rule out)
    from k have "n_kind usr \<noteq> prim_Return" by auto
    from user_node_in_graph [OF hp u this] obtain j where "(j, usr) \<in> set (g_nodes g)" ..
    from in_graph_values(4) [OF this, of out] have "out \<in> graph_values g"
      using o by simp
    then have "out \<noteq> g_next g"
      using fresh by auto
    from replaceWithIValue_replaces [OF hp this fresh, of "IInt c"] Some rule
    show ?thesis by simp
  qed
qed

subsection \<open>Input specialization\<close>


subsection \<open>Graph-wide propagation\<close>

lemma PropagateShapesWithShapeFunction_explicit:
  assumes tg: "graph_at h (fst n) = Inr tg"
    and nd: "map_of (g_nodes tg) (snd n) = Some nd"
  shows "PropagateShapesWithShapeFunction ps h n sp =
     (case analyze ps h n sp of
        Inl e \<Rightarrow> Inl e
      | Inr r \<Rightarrow>
          (case n_outputs nd of
             [ov] \<Rightarrow>
               (case g_type tg ov of
                  TensorType tt \<Rightarrow>
                    Inr ((h @ [None])
                      [fst n := Some (tg\<lparr>g_type := (g_type tg)
                         (ov := TensorType (tt\<lparr>symbolic_sizes := fst r\<rparr>))\<rparr>)])
                | _ \<Rightarrow> Inl IRAssert)
           | _ \<Rightarrow> Inl IRAssert))"
proof (cases "analyze ps h n sp")
  case (Inl e)
  then show ?thesis
    by (simp add: PropagateShapesWithShapeFunction_def)
next
  case (Inr r)
  obtain out h0 where r: "r = (out, h0)" by (cases r)
  have rd: "reads h n tg nd"
    using tg nd by (simp add: reads_def)
  from Inr r obtain g0 where sp: "graph_at h sp = Inr g0"
    by (cases "graph_at h sp") (auto simp: analyze_def SymbolicShapeAnalyzer_init_def)
  from Inr r analyze_lift [OF sp rd, of ps] have h0: "h0 = h @ [None]"
    by (auto split: sum.splits)
  have n0: "node_at h0 n = Inr nd"
    using rd h0 by (simp add: node_at_append_None reads_iff_node_at) blast
  have tg0: "graph_at h0 (fst n) = Inr tg"
    using tg h0 by (simp add: graph_at_append_None)
  have "PropagateShapesWithShapeFunction ps h n sp =
      bindE (node_output nd) (\<lambda>ov.
        case castTensorType (g_type tg ov) of
          None \<Rightarrow> Inl IRAssert
        | Some tt \<Rightarrow> setType h0 (fst n, ov) (TensorType (withSymbolicShapes tt out)))"
    by (simp add: PropagateShapesWithShapeFunction_def Inr r n0 value_type_def tg0)
  also have "\<dots> =
      (case n_outputs nd of
         [ov] \<Rightarrow>
           (case g_type tg ov of
              TensorType tt \<Rightarrow>
                Inr ((h @ [None])
                  [fst n := Some (tg\<lparr>g_type := (g_type tg)
                     (ov := TensorType (tt\<lparr>symbolic_sizes := out\<rparr>))\<rparr>)])
            | _ \<Rightarrow> Inl IRAssert)
       | _ \<Rightarrow> Inl IRAssert)"
    using tg0
    by (simp add: node_output_def setType_def withSymbolicShapes_def h0
        split: list.splits jtype.splits)
  finally show ?thesis
    by (simp add: Inr r cong: list.case_cong jtype.case_cong)
qed

lemma propagate_node_spec:
  "propagate_node ps registry gp h i = spec_propagate_step ps registry gp h i"
proof (cases "lookup h gp")
  case None
  then show ?thesis
    by (simp add: propagate_node_def spec_propagate_step_def node_at_def graph_at_def)
next
  case (Some tg)
  then have tg: "graph_at h gp = Inr tg"
    by (simp add: graph_at_def)
  show ?thesis
  proof (cases "map_of (g_nodes tg) i")
    case None
    then show ?thesis
      using Some tg by (simp add: propagate_node_def spec_propagate_step_def node_at_def)
  next
    case nd: (Some nd)
    note ex = PropagateShapesWithShapeFunction_explicit
      [where n = "(gp, i)", unfolded fst_conv snd_conv, OF tg nd]
    show ?thesis
      using Some tg nd
      by (simp add: propagate_node_def spec_propagate_step_def node_at_def ex
          split: option.splits)
  qed
qed

text \<open>
  C6 (as amended). Graph-wide propagation is the traversal of the top-level operations of
  the target graph, in program order: at an operation whose signature is registered the
  analyzer runs and the type of the operation's output is overwritten, the same tensor
  type with the derived shape as its symbolic shape; an operation without a schema or with
  an unregistered signature leaves the store as it is; operations in the blocks of other
  operations are not visited. When the traversal returns, the registry is unchanged, every
  other graph of the store is unchanged, and the target graph has the same nodes, inputs
  and outputs; a type has changed only at an output of a top-level node whose signature is
  registered, and there only the symbolic shape of the tensor type (the nodes of the graph
  being under distinct identities).
\<close>

theorem propagate_on_graph:
  "PropagateShapesOnGraph ps w gp = spec_propagate ps w gp
   \<and> (\<forall>g w1. graph_at (w_heap w) gp = Inr g \<and> distinct (map fst (g_nodes g))
          \<and> PropagateShapesOnGraph ps w gp = Inr w1 \<longrightarrow>
        operator_functions w1 = operator_functions w
        \<and> (\<exists>g1. graph_at (w_heap w1) gp = Inr g1
               \<and> shapes_refined (registered_outputs (operator_functions w) g) g g1)
        \<and> (\<forall>q. q \<noteq> gp \<and> q < length (w_heap w) \<longrightarrow>
               lookup (w_heap w1) q = lookup (w_heap w) q))"
proof
  have "propagate_node ps (operator_functions w) gp =
      spec_propagate_step ps (operator_functions w) gp"
    by (intro ext) (rule propagate_node_spec)
  then show "PropagateShapesOnGraph ps w gp = spec_propagate ps w gp"
    by (simp add: PropagateShapesOnGraph_def spec_propagate_def graph_at_def graph_nodes_def
        bindE_def split: option.splits sum.splits)
next
  show "\<forall>g w1. graph_at (w_heap w) gp = Inr g \<and> distinct (map fst (g_nodes g))
          \<and> PropagateShapesOnGraph ps w gp = Inr w1 \<longrightarrow>
        operator_functions w1 = operator_functions w
        \<and> (\<exists>g1. graph_at (w_heap w1) gp = Inr g1
               \<and> shapes_refined (registered_outputs (operator_functions w) g) g g1)
        \<and> (\<forall>q. q \<noteq> gp \<and> q < length (w_heap w) \<longrightarrow>
               lookup (w_heap w1) q = lookup (w_heap w) q)"
  proof (intro allI impI, elim conjE)
    fix g w1
    assume g: "graph_at (w_heap w) gp = Inr g" and d: "distinct (map fst (g_nodes g))"
      and ok: "PropagateShapesOnGraph ps w gp = Inr w1"
    from ok g obtain h1 where
      loop: "for_each (map fst (graph_nodes g)) (propagate_node ps (operator_functions w) gp)
               (w_heap w) = Inr h1"
      and w1: "w1 = w\<lparr>w_heap := h1\<rparr>"
      by (auto simp: PropagateShapesOnGraph_def bindE_def split: sum.splits)
    have sub: "set (map fst (graph_nodes g)) \<subseteq> fst ` set (graph_nodes g)"
      by simp
    from propagate_loop [OF loop g shapes_refined_refl sub d] w1
    show "operator_functions w1 = operator_functions w
        \<and> (\<exists>g1. graph_at (w_heap w1) gp = Inr g1
               \<and> shapes_refined (registered_outputs (operator_functions w) g) g g1)
        \<and> (\<forall>q. q \<noteq> gp \<and> q < length (w_heap w) \<longrightarrow>
               lookup (w_heap w1) q = lookup (w_heap w) q)"
      by auto
  qed
qed

subsection \<open>The theorems at the worked example\<close>

lemma ex_program_at: "graph_at ex_heap 1 = Inr ex_program"
  by (simp add: graph_at_def lookup_def ex_heap_def)

lemma ex_node_at:
  "node_at ex_heap (0, 1) =
     Inr \<lparr>n_kind = other_kind ''aten::foo'', n_inputs = [0], n_outputs = [1],
          n_schema = Some ''aten::foo(Tensor self) -> Tensor'', n_block = 0\<rparr>"
  by (simp add: node_at_def ex_graph_at_0 ex_target_def)

lemma ex_analyze:
  "analyze id_passes ex_heap (0, 1) 1 = Inr (Some [Some 4, None, Some 7, None], ex_heap @ [None])"
proof -
  have rd: "reads ex_heap (0, 1) ex_target (snd (hd (g_nodes ex_target)))"
    by (simp add: reads_def ex_graph_at_0 ex_target_def)
  have "analyzeG id_passes (op_inputs ex_target (snd (hd (g_nodes ex_target)))) ex_program
      = Inr (Some [Some 4, None, Some 7, None])"
    by code_simp
  then show ?thesis
    using analyze_lift [OF ex_program_at rd, of id_passes] by simp
qed

theorem analysis_repeatable_witness:
  "analyze id_passes (ex_heap @ [None]) (0, 1) 1 =
     Inr (Some [Some 4, None, Some 7, None], (ex_heap @ [None]) @ [None])"
  by (rule analysis_repeatable [OF ex_node_at ex_analyze])

theorem analysis_mutates_only_private_copy_witness:
  "\<exists>h3. analyze id_passes ex_heap (0, 1) 1 = Inr (Some [Some 4, None, Some 7, None], h3)
        \<and> h3 = ex_heap @ [None] \<and> lookup h3 1 = Some ex_program
        \<and> lookup h3 0 = Some ex_target"
proof -
  from analysis_mutates_only_private_copy [OF ex_node_at, of 1 id_passes] ex_analyze
  have "\<forall>q. lookup (ex_heap @ [None]) q = lookup ex_heap q"
    by blast
  then have "lookup (ex_heap @ [None]) 1 = lookup ex_heap 1"
    "lookup (ex_heap @ [None]) 0 = lookup ex_heap 0"
    by blast+
  moreover have "lookup ex_heap 1 = Some ex_program" "lookup ex_heap 0 = Some ex_target"
    by (simp_all add: lookup_def ex_heap_def)
  ultimately show ?thesis
    using ex_analyze by simp
qed

theorem propagate_needs_single_tensor_output_witness:
  "PropagateShapesWithShapeFunction id_passes ex_heap (0, 1) 1 =
     Inr ((ex_heap @ [None])[0 := Some (ex_target\<lparr>g_type := (g_type ex_target)
            (1 := TensorType \<lparr>symbolic_sizes = Some [Some 4, None, Some 7, None],
                              tensor_props = ''Float''\<rparr>)\<rparr>)])"
proof -
  have ty: "g_type ex_target 1 = TensorType \<lparr>symbolic_sizes = None, tensor_props = ''Float''\<rparr>"
    by (simp add: ex_target_def)
  from propagate_needs_single_tensor_output [OF ex_node_at _ ex_analyze, of ex_target] ty
  show ?thesis
    by (simp add: ex_graph_at_0 withSymbolicShapes_def)
qed


theorem register_first_write_wins_witness:
  "\<exists>w1. RegisterOperatorShapeFunction (ex_world\<lparr>operator_functions := Map.empty\<rparr>) (0, 1) 1 = Inr w1
       \<and> operator_functions w1 = [ex_signature \<mapsto> 1]
       \<and> RegisterOperatorShapeFunction w1 (0, 1) 0 = Inr w1"
proof -
  let ?w = "ex_world\<lparr>operator_functions := Map.empty\<rparr>"
  have n: "node_at (w_heap ?w) (0, 1) =
     Inr \<lparr>n_kind = other_kind ''aten::foo'', n_inputs = [0], n_outputs = [1],
          n_schema = Some ''aten::foo(Tensor self) -> Tensor'', n_block = 0\<rparr>"
    using ex_node_at by (simp add: ex_world_def)
  from register_first_write_wins [OF n, of 1]
  obtain w1 where w1: "RegisterOperatorShapeFunction ?w (0, 1) 1 = Inr w1"
    "operator_functions w1 = [ex_signature \<mapsto> 1]" "w_heap w1 = w_heap ?w"
    and again: "\<forall>n2 nd2 gp2. node_at (w_heap w1) n2 = Inr nd2 \<and> n_schema nd2 = Some ex_signature
        \<longrightarrow> RegisterOperatorShapeFunction w1 n2 gp2 = Inr w1"
    by (auto simp: ex_signature_def)
  from again n w1(3) have "RegisterOperatorShapeFunction w1 (0, 1) 0 = Inr w1"
    by (simp add: ex_signature_def)
  with w1 show ?thesis by blast
qed

theorem extractOutputShape_cases_witness:
  "extractOutputShape ex_analyzer [Some ex_target, Some ex_simplified] =
     Inr (Some [Some 4, None, Some 7, None])"
proof -
  let ?h = "[Some ex_target, Some ex_simplified]"
  let ?lc = "\<lparr>n_kind = prim_ListConstruct, n_inputs = [9, 5, 10, 5], n_outputs = [8],
               n_schema = None, n_block = 0\<rparr>"
  have hp: "graph_at ?h (graph_ptr ex_analyzer) = Inr ex_simplified"
    by (simp add: graph_at_def lookup_def ex_analyzer_def)
  have out: "g_outputs ex_simplified = [8]"
    by (simp add: ex_simplified_def)
  have ty: "g_type ex_simplified 8 = ListType IntType"
    by (simp add: ex_simplified_def)
  have wt: "\<forall>v c. toIValue ex_simplified v = Some c \<longrightarrow> g_type ex_simplified v = type_of_ivalue c"
    by (auto simp: toIValue_def value_kind_def producer_def ex_simplified_def
        split: if_splits)
  have p: "producer ex_simplified 8 = Some ?lc"
    by (simp add: producer_def ex_simplified_def)
  have lc: "\<forall>lc. producer ex_simplified 8 = Some lc \<and> n_kind lc = prim_ListConstruct \<longrightarrow>
               (\<forall>v \<in> set (n_inputs lc). g_type ex_simplified v = IntType)"
    by (simp add: p) (simp add: ex_simplified_def)
  have u: "length (uses ex_simplified 8) = 1"
    by (simp add: uses_def offsets_of_def ex_simplified_def)
  have e: "map (elem_dim ex_simplified) [9, 5, 10, 5] = [Some 4, None, Some 7, None]"
    by (simp add: elem_dim_def toIValue_def value_kind_def producer_def ex_simplified_def)
  from extractOutputShape_cases [OF hp out ty wt lc] p u e
  show ?thesis by simp
qed

lemma ex_wf_program:
  "wf_program (op_inputs ex_target
     \<lparr>n_kind = other_kind ''aten::foo'', n_inputs = [0], n_outputs = [1],
      n_schema = Some ''aten::foo(Tensor self) -> Tensor'', n_block = 0\<rparr>) ex_program"
proof -
  have 1: "graph_values ex_program = {0, 1, 2, 3, 4, 5, 6, 7, 8}"
    by (auto simp: graph_values_def ex_program_def)
  show ?thesis
    unfolding wf_program_def
  proof (intro conjI)
    show "inputs_aligned (op_inputs ex_target
     \<lparr>n_kind = other_kind ''aten::foo'', n_inputs = [0], n_outputs = [1],
      n_schema = Some ''aten::foo(Tensor self) -> Tensor'', n_block = 0\<rparr>) ex_program"
      by (simp add: inputs_aligned_def op_inputs_def ex_target_def ex_program_def)
    show "\<forall>v. v \<in> graph_values ex_program \<longrightarrow> v < g_next ex_program"
      unfolding 1 by (auto simp: ex_program_def)
    show "\<forall>i n. (i, n) \<in> set (g_nodes ex_program) \<longrightarrow> i < g_next ex_program \<and> node_ok ex_program n"
      by (auto simp: ex_program_def node_ok_def)
    show "distinct (map fst (g_nodes ex_program))"
      by (simp add: ex_program_def)
    show "singleton_int_list_output ex_program"
      by (simp add: singleton_int_list_output_def ex_program_def)
  qed
qed

lemma ex_program_fresh: "\<forall>x. x \<in> graph_values ex_program \<longrightarrow> x < g_next ex_program"
  using ex_wf_program by (simp add: wf_program_def)

theorem substituteTensorProperties_rewrites_uses_witness:
  "(\<exists>g1. substitute_use 1 [None, None, Some 5, Some 7] ex_heap (UNode 6) = Inr (ex_heap[1 := Some g1])
         \<and> toIValue g1 9 = Some (IInt 7) \<and> uses g1 9 = [(UNode 8, 2)] \<and> uses g1 6 = [])
   \<and> substitute_use 1 [None, None, Some 5, Some 7] ex_heap (UNode 5) = Inr ex_heap
   \<and> substitute_use 1 [None, None, Some 5, Some 7] ex_heap (UNode 7) = Inr ex_heap
   \<and> (\<exists>g1. substitute_use 1 [None, None, Some 5, Some 7] ex_heap (UNode 4) = Inr (ex_heap[1 := Some g1])
         \<and> toIValue g1 9 = Some (IInt 4) \<and> uses g1 9 = [(UNode 8, 0)] \<and> uses g1 4 = [])
   \<and> (\<exists>g1. substituteTensorProperties
               \<lparr>node_input_tensor_indices = [0], graph_ptr = 1, node_ptr = (0, 1)\<rparr> ex_heap 0
             = Inr (ex_heap[1 := Some g1])
         \<and> map_of (g_nodes g1) 8 =
             Some \<lparr>n_kind = prim_ListConstruct, n_inputs = [9, 5, 10, 7], n_outputs = [8],
                   n_schema = None, n_block = 0\<rparr>
         \<and> toIValue g1 9 = Some (IInt 4) \<and> toIValue g1 5 = None
         \<and> toIValue g1 10 = Some (IInt 7) \<and> toIValue g1 7 = None)"
proof -
  let ?a = "\<lparr>node_input_tensor_indices = [0], graph_ptr = 1, node_ptr = (0, 1)\<rparr>"
  let ?dims = "[None, None, Some 5, Some (7::int)]"
  have tv: "node_input ex_heap (node_ptr ?a) 0 = Inr (0, 0)"
    by (simp add: node_input_def node_at_def ex_graph_at_0 ex_target_def)
  have ty: "value_type ex_heap (0, 0) = Inr (TensorType ex_tensor)"
    by (simp add: value_type_def ex_graph_at_0 ex_target_def)
  have dims: "symbolic_sizes ex_tensor = Some ?dims"
    by (simp add: ex_tensor_def)
  have i: "0 < length (g_inputs ex_program)"
    by (simp add: ex_program_def)
  have u6: "user_node ex_heap 1 (UNode 6) =
      Inr \<lparr>n_kind = aten_getitem, n_inputs = [0, 3], n_outputs = [6], n_schema = None, n_block = 0\<rparr>"
    by (simp add: user_node_def node_at_def ex_graph_at_1 ex_program_def)
  have u5: "user_node ex_heap 1 (UNode 5) =
      Inr \<lparr>n_kind = aten_getitem, n_inputs = [0, 2], n_outputs = [5], n_schema = None, n_block = 0\<rparr>"
    by (simp add: user_node_def node_at_def ex_graph_at_1 ex_program_def)
  have u7: "user_node ex_heap 1 (UNode 7) =
      Inr \<lparr>n_kind = aten_getitem, n_inputs = [0, 1], n_outputs = [7], n_schema = None, n_block = 0\<rparr>"
    by (simp add: user_node_def node_at_def ex_graph_at_1 ex_program_def)
  have u4: "user_node ex_heap 1 (UNode 4) =
      Inr \<lparr>n_kind = aten_len, n_inputs = [0], n_outputs = [4], n_schema = None, n_block = 0\<rparr>"
    by (simp add: user_node_def node_at_def ex_graph_at_1 ex_program_def)
  have c: "toIValue ex_program 3 = Some (IInt (- 1))" "toIValue ex_program 2 = Some (IInt (- 5))"
    "toIValue ex_program 1 = Some (IInt 1)"
    by (simp_all add: toIValue_def value_kind_def producer_def ex_program_def)
  have us: "uses ex_program 6 = [(UNode 8, 2)]" "uses ex_program 4 = [(UNode 8, 0)]"
    "map fst (uses ex_program (g_inputs ex_program ! 0)) = [UNode 4, UNode 5, UNode 6, UNode 7]"
    by (simp_all add: uses_def offsets_of_def ex_program_def)
  have nx: "g_next ex_program = 9"
    by (simp add: ex_program_def)
  note inst = substituteTensorProperties_rewrites_uses
      [OF ex_graph_at_1 [folded One_nat_def] _ tv ty dims _ i ex_program_fresh]
  have 6: "\<exists>g1. substitute_use 1 ?dims ex_heap (UNode 6) = Inr (ex_heap[1 := Some g1])
         \<and> toIValue g1 9 = Some (IInt 7) \<and> uses g1 9 = [(UNode 8, 2)] \<and> uses g1 6 = []"
    using inst [OF _ _ u6, of 6] c
    by (auto simp: spec_substitution_def static_index_def replaced_by_constant_def us nx)
  have 5: "substitute_use 1 ?dims ex_heap (UNode 5) = Inr ex_heap"
    using inst [OF _ _ u5, of 5] c
    by (simp add: spec_substitution_def static_index_def)
  have 7: "substitute_use 1 ?dims ex_heap (UNode 7) = Inr ex_heap"
    using inst [OF _ _ u7, of 7] c
    by (simp add: spec_substitution_def static_index_def)
  have 4: "\<exists>g1. substitute_use 1 ?dims ex_heap (UNode 4) = Inr (ex_heap[1 := Some g1])
         \<and> toIValue g1 9 = Some (IInt 4) \<and> uses g1 9 = [(UNode 8, 0)] \<and> uses g1 4 = []"
    using inst [OF _ _ u4, of 4]
    by (auto simp: spec_substitution_def static_index_def replaced_by_constant_def us nx)
  have fl: "for_each xs (substitute_use 1 ?dims) ex_heap =
      lift ex_heap 1 (for_each xs (substitute_useG ?dims) ex_program)" for xs
    by (rule for_each_lift [where Q = "\<lambda>_. True"])
      (simp_all add: substitute_use_lift ex_graph_at_1)
  have ev: "case for_each [UNode 4, UNode 5, UNode 6, UNode 7] (substitute_useG ?dims) ex_program of
       Inl e \<Rightarrow> False
     | Inr g1 \<Rightarrow>
         map_of (g_nodes g1) 8 =
             Some \<lparr>n_kind = prim_ListConstruct, n_inputs = [9, 5, 10, 7], n_outputs = [8],
                   n_schema = None, n_block = 0\<rparr>
         \<and> toIValue g1 9 = Some (IInt 4) \<and> toIValue g1 5 = None
         \<and> toIValue g1 10 = Some (IInt 7) \<and> toIValue g1 7 = None"
    by code_simp
  have all: "\<exists>g1. substituteTensorProperties ?a ex_heap 0 = Inr (ex_heap[1 := Some g1])
         \<and> map_of (g_nodes g1) 8 =
             Some \<lparr>n_kind = prim_ListConstruct, n_inputs = [9, 5, 10, 7], n_outputs = [8],
                   n_schema = None, n_block = 0\<rparr>
         \<and> toIValue g1 9 = Some (IInt 4) \<and> toIValue g1 5 = None
         \<and> toIValue g1 10 = Some (IInt 7) \<and> toIValue g1 7 = None"
  proof -
    have "substituteTensorProperties ?a ex_heap 0 =
        for_each (map fst (uses ex_program (g_inputs ex_program ! 0)))
          (substitute_use 1 ?dims) ex_heap"
      using inst [OF _ _ u5, of 5] c by simp
    then have eq: "substituteTensorProperties ?a ex_heap 0 =
        lift ex_heap 1 (for_each [UNode 4, UNode 5, UNode 6, UNode 7]
          (substitute_useG ?dims) ex_program)"
      by (simp only: us fl)
    show ?thesis
    proof (cases "for_each [UNode 4, UNode 5, UNode 6, UNode 7] (substitute_useG ?dims) ex_program")
      case (Inl e)
      with ev show ?thesis by simp
    next
      case (Inr g1)
      with ev eq show ?thesis
        by (intro exI [of _ g1]) simp
    qed
  qed
  from 6 5 7 4 all show ?thesis by blast
qed



lemma find_snoc_not: "\<not> P x \<Longrightarrow> find P (xs @ [x]) = find P xs"
  by (induction xs) auto

lemma pass_trace_mark: "pass_trace (mark s g) = pass_trace g @ [s]"
  by (simp add: pass_trace_def mark_def)

lemma producer_mark: "producer (mark s g) v = producer g v"
  by (simp add: producer_def mark_def find_snoc_not)

lemma constant_as_int_mark: "constant_as_int (mark s g) = constant_as_int g"
  by (intro ext) (simp add: constant_as_int_def toIValue_def value_kind_def producer_mark)

lemma uses_mark: "uses (mark s g) v = uses g v"
  by (simp add: uses_def mark_def offsets_of_def)

lemma extractOutputShapeG_mark: "extractOutputShapeG (mark s g) = extractOutputShapeG g"
proof -
  have o: "g_outputs (mark s g) = g_outputs g" and t: "g_type (mark s g) = g_type g"
    by (simp_all add: mark_def)
  show ?thesis
    unfolding extractOutputShapeG_def value_kind_def producer_mark constant_as_int_mark
      uses_mark o t
    by (rule refl)
qed

theorem run_fixed_rounds_witness:
  "(\<exists>h1. run id_passes ex_tracking ex_heap = Inr (Some [Some 4, None, Some 7, None], h1))
   \<and> (\<exists>h1 g1. run trace_passes ex_analyzer ex_heap = Inr (Some [None, None, None, None], h1)
        \<and> lookup h1 1 = Some g1
        \<and> pass_trace g1 =
            ex_round_trace @ ex_round_trace @ ex_round_trace @ ex_round_trace @ ex_round_trace
            @ ex_round_trace @ [''ConstantPooling'', ''EliminateDeadCode''])"
proof -
  have ev: "case spec_run id_passes ex_tracking ex_heap of
        Inl e \<Rightarrow> False
      | Inr r \<Rightarrow> fst r = Some [Some 4, None, Some 7, None]"
    by code_simp
  have a: "\<exists>h1. run id_passes ex_tracking ex_heap = Inr (Some [Some 4, None, Some 7, None], h1)"
    using ev run_fixed_rounds [of id_passes ex_tracking ex_heap]
    by (auto split: sum.splits)
  let ?g = "final_rewrite trace_passes ((round_rewrite trace_passes ^^ 6) ex_program)"
  have t: "node_input_tensor_indices ex_analyzer = []"
    and g: "graph_at ex_heap (graph_ptr ex_analyzer) = Inr ex_program"
    by (simp_all add: ex_analyzer_def ex_graph_at_1)
  have "pass_trace ex_program = []"
    by (simp add: pass_trace_def ex_program_def)
  then have tr: "pass_trace ?g =
      ex_round_trace @ ex_round_trace @ ex_round_trace @ ex_round_trace @ ex_round_trace
      @ ex_round_trace @ [''ConstantPooling'', ''EliminateDeadCode'']"
    by (simp add: eval_nat_numeral round_rewrite_def final_rewrite_def trace_passes_def
        pass_trace_mark ex_round_trace_def)
  have "extractOutputShapeG ex_program = Inr (Some [None, None, None, None])"
    by code_simp
  then have ex: "extractOutputShapeG ?g = Inr (Some [None, None, None, None])"
    by (simp add: eval_nat_numeral round_rewrite_def final_rewrite_def trace_passes_def
        extractOutputShapeG_mark)
  have "graph_at (ex_heap[graph_ptr ex_analyzer := Some ?g]) (graph_ptr ex_analyzer) = Inr ?g"
    by (simp add: graph_at_def lookup_def ex_heap_def ex_analyzer_def)
  from extractOutputShape_lift [OF this] ex
  have e: "extractOutputShape ex_analyzer (ex_heap[graph_ptr ex_analyzer := Some ?g])
      = Inr (Some [None, None, None, None])"
    by simp
  have lk: "lookup (ex_heap[graph_ptr ex_analyzer := Some ?g]) 1 = Some ?g"
    by (simp add: lookup_def ex_heap_def ex_analyzer_def)
  from run_fixed_rounds [of trace_passes ex_analyzer ex_heap] t g
  have "run trace_passes ex_analyzer ex_heap =
      (let h1 = ex_heap[graph_ptr ex_analyzer := Some ?g]
       in bindE (extractOutputShape ex_analyzer h1) (\<lambda>out. Inr (out, h1)))"
    by blast
  then have "run trace_passes ex_analyzer ex_heap =
      Inr (Some [None, None, None, None], ex_heap[graph_ptr ex_analyzer := Some ?g])"
    by (simp only: Let_def e bindE_Inr)
  with lk tr
  have b: "\<exists>h1 g1. run trace_passes ex_analyzer ex_heap = Inr (Some [None, None, None, None], h1)
        \<and> lookup h1 1 = Some g1
        \<and> pass_trace g1 =
            ex_round_trace @ ex_round_trace @ ex_round_trace @ ex_round_trace @ ex_round_trace
            @ ex_round_trace @ [''ConstantPooling'', ''EliminateDeadCode'']"
    by blast
  from a b show ?thesis by blast
qed

theorem propagate_on_graph_witness:
  "PropagateShapesOnGraph id_passes ex_world 0 =
     Inr (ex_world\<lparr>w_heap := (ex_heap @ [None])[0 := Some (ex_target\<lparr>g_type := (g_type ex_target)
            (1 := TensorType \<lparr>symbolic_sizes = Some [Some 4, None, Some 7, None],
                              tensor_props = ''Float''\<rparr>)\<rparr>)]\<rparr>)
   \<and> (\<exists>w1 g1. PropagateShapesOnGraph id_passes ex_world 0 = Inr w1
         \<and> operator_functions w1 = operator_functions ex_world
         \<and> graph_at (w_heap w1) 0 = Inr g1 \<and> g_nodes g1 = g_nodes ex_target
         \<and> lookup (w_heap w1) 1 = Some ex_program)"
proof -
  let ?h1 = "(ex_heap @ [None])[0 := Some (ex_target\<lparr>g_type := (g_type ex_target)
            (1 := TensorType \<lparr>symbolic_sizes = Some [Some 4, None, Some 7, None],
                              tensor_props = ''Float''\<rparr>)\<rparr>)]"
  have l0: "lookup ex_heap 0 = Some ex_target"
    by (simp add: lookup_def ex_heap_def)
  have nd: "map_of (g_nodes ex_target) 1 =
      Some \<lparr>n_kind = other_kind ''aten::foo'', n_inputs = [0], n_outputs = [1],
          n_schema = Some ''aten::foo(Tensor self) -> Tensor'', n_block = 0\<rparr>"
    by (simp add: ex_target_def)
  have ty: "g_type ex_target 1 = TensorType \<lparr>symbolic_sizes = None, tensor_props = ''Float''\<rparr>"
    by (simp add: ex_target_def)
  have an: "analyze id_passes ex_heap (0, Suc 0) (Suc 0) =
      Inr (Some [Some 4, None, Some 7, None], ex_heap @ [None])"
    using ex_analyze by simp
  have reg: "operator_functions ex_world ''aten::foo(Tensor self) -> Tensor'' = Some (Suc 0)"
    by (simp add: ex_world_def ex_signature_def)
  have step: "spec_propagate_step id_passes (operator_functions ex_world) 0 ex_heap 1 = Inr ?h1"
    by (simp add: spec_propagate_step_def l0 nd [unfolded One_nat_def] reg an
        ty [unfolded One_nat_def])
  have ids: "map fst (filter (\<lambda>(i, n). n_block n = 0) (g_nodes ex_target)) = [1]"
    by (simp add: ex_target_def)
  have sp: "spec_propagate id_passes ex_world 0 = Inr (ex_world\<lparr>w_heap := ?h1\<rparr>)"
    unfolding spec_propagate_def
    using l0 step by (simp add: ex_world_def ids)
  note inst = propagate_on_graph [of id_passes ex_world 0]
  from inst sp have a: "PropagateShapesOnGraph id_passes ex_world 0 = Inr (ex_world\<lparr>w_heap := ?h1\<rparr>)"
    by simp
  have g: "graph_at (w_heap ex_world) 0 = Inr ex_target"
    by (simp add: ex_world_def ex_graph_at_0)
  have d: "distinct (map fst (g_nodes ex_target))"
    by (simp add: ex_target_def)
  have l: "lookup (w_heap ex_world) 1 = Some ex_program" "1 < length (w_heap ex_world)"
    by (simp_all add: ex_world_def ex_heap_def lookup_def)
  from inst g d a
  have "operator_functions (ex_world\<lparr>w_heap := ?h1\<rparr>) = operator_functions ex_world
      \<and> (\<exists>g1. graph_at (w_heap (ex_world\<lparr>w_heap := ?h1\<rparr>)) 0 = Inr g1
             \<and> shapes_refined (registered_outputs (operator_functions ex_world) ex_target)
                  ex_target g1)
      \<and> (\<forall>q. q \<noteq> 0 \<and> q < length (w_heap ex_world) \<longrightarrow>
             lookup (w_heap (ex_world\<lparr>w_heap := ?h1\<rparr>)) q = lookup (w_heap ex_world) q)"
    by blast
  with l have "\<exists>g1. operator_functions (ex_world\<lparr>w_heap := ?h1\<rparr>) = operator_functions ex_world
      \<and> graph_at (w_heap (ex_world\<lparr>w_heap := ?h1\<rparr>)) 0 = Inr g1
      \<and> g_nodes g1 = g_nodes ex_target
      \<and> lookup (w_heap (ex_world\<lparr>w_heap := ?h1\<rparr>)) 1 = Some ex_program"
    by (auto simp: shapes_refined_def)
  with a show ?thesis by blast
qed

text \<open>
  The claim C6 as first stated fails at an operation that is in a block of another
  operation: its signature is registered and the analyzer derives a shape for it, but the
  traversal does not visit it and the graph is left as it was.
\<close>

theorem propagate_nested_counterexample:
  "map_of (g_nodes ex_nested_target) 1 =
     Some \<lparr>n_kind = other_kind ''aten::foo'', n_inputs = [0], n_outputs = [1],
           n_schema = Some ''aten::foo(Tensor self) -> Tensor'', n_block = 1\<rparr>
   \<and> operator_functions ex_nested_world ''aten::foo(Tensor self) -> Tensor'' = Some 1
   \<and> analyze id_passes (w_heap ex_nested_world) (0, 1) 1 =
       Inr (Some [Some 4, None, Some 7, None], w_heap ex_nested_world @ [None])
   \<and> PropagateShapesOnGraph id_passes ex_nested_world 0 = Inr ex_nested_world"
proof -
  let ?nd = "\<lparr>n_kind = other_kind ''aten::foo'', n_inputs = [0], n_outputs = [1],
           n_schema = Some ''aten::foo(Tensor self) -> Tensor'', n_block = 1\<rparr>"
  have nd: "map_of (g_nodes ex_nested_target) 1 = Some ?nd"
    by (simp add: ex_nested_target_def)
  have reg: "operator_functions ex_nested_world ''aten::foo(Tensor self) -> Tensor'' = Some 1"
    by (simp add: ex_nested_world_def ex_signature_def)
  have g0: "graph_at (w_heap ex_nested_world) 0 = Inr ex_nested_target"
    and g1: "graph_at (w_heap ex_nested_world) 1 = Inr ex_program"
    by (simp_all add: graph_at_def lookup_def ex_nested_world_def)
  have rd: "reads (w_heap ex_nested_world) (0, 1) ex_nested_target ?nd"
    using g0 nd by (simp add: reads_def)
  have "analyzeG id_passes (op_inputs ex_nested_target ?nd) ex_program
      = Inr (Some [Some 4, None, Some 7, None])"
    by code_simp
  then have an: "analyze id_passes (w_heap ex_nested_world) (0, 1) 1 =
       Inr (Some [Some 4, None, Some 7, None], w_heap ex_nested_world @ [None])"
    using analyze_lift [OF g1 rd, of id_passes] by simp
  have n2: "node_at (w_heap ex_nested_world) (0, 2) =
      Inr \<lparr>n_kind = other_kind ''prim::If'', n_inputs = [3], n_outputs = [2],
               n_schema = None, n_block = 0\<rparr>"
    using g0 by (simp add: node_at_def ex_nested_target_def)
  have ids: "map fst (graph_nodes ex_nested_target) = [2]"
    by (simp add: graph_nodes_def ex_nested_target_def)
  have "PropagateShapesOnGraph id_passes ex_nested_world 0 = Inr ex_nested_world"
    by (simp add: PropagateShapesOnGraph_def g0 ids propagate_node_def n2)
  with nd reg an show ?thesis by blast
qed



end
